theory Spec2Isabelle
  imports
    Complex_Main
    "HOL-Library.Char_ord"
    "HOL-Library.List_Lexorder"
    "HOL-Library.Product_Lexorder"
begin

section \<open>Python values and strings\<close>

text \<open>
  A Python \<open>str\<close> is a sequence of code points and \<open>len\<close> counts code points.
  In the text utilities and the reply generator a \<^typ>\<open>char\<close> stands for one code
  point, so these modules are modelled on texts whose code points lie below 256; on
  that range \<open>str.lower\<close> works character by character and keeps the length.
  The tokens, stopwords and off-topic terms of the source are ASCII.
\<close>

definition py_isspace :: "char \<Rightarrow> bool" where
  "py_isspace c \<longleftrightarrow>
     (of_char c :: nat) \<in> {9, 10, 11, 12, 13, 28, 29, 30, 31, 32, 133, 160}"

definition lstrip :: "string \<Rightarrow> string" where
  "lstrip s = dropWhile py_isspace s"

definition rstrip :: "string \<Rightarrow> string" where
  "rstrip s = rev (dropWhile py_isspace (rev s))"

definition strip :: "string \<Rightarrow> string" where
  "strip s = rstrip (lstrip s)"

definition lower_char :: "char \<Rightarrow> char" where
  "lower_char c =
     (let n = (of_char c :: nat)
      in if (65 \<le> n \<and> n \<le> 90) \<or> (192 \<le> n \<and> n \<le> 222 \<and> n \<noteq> 215)
         then char_of (n + 32) else c)"

definition lower :: "string \<Rightarrow> string" where
  "lower s = map lower_char s"

text \<open>\<open>needle in haystack\<close> on strings: a contiguous occurrence.\<close>

fun starts_with :: "string \<Rightarrow> string \<Rightarrow> bool" where
  "starts_with [] s = True"
| "starts_with (p # ps) [] = False"
| "starts_with (p # ps) (c # cs) = (p = c \<and> starts_with ps cs)"

fun py_in :: "string \<Rightarrow> string \<Rightarrow> bool" where
  "py_in needle [] = (needle = [])"
| "py_in needle (c # cs) = (starts_with needle (c # cs) \<or> py_in needle cs)"

text \<open>\<open>sep.join(parts)\<close>.\<close>

fun join :: "string \<Rightarrow> string list \<Rightarrow> string" where
  "join sep [] = []"
| "join sep [x] = x"
| "join sep (x # y # ys) = x @ sep @ join sep (y # ys)"

text \<open>\<open>xs[:n]\<close> for a Python integer \<open>n\<close>: a negative bound counts from the end.\<close>

definition py_take :: "int \<Rightarrow> 'a list \<Rightarrow> 'a list" where
  "py_take n xs = (if 0 \<le> n then take (nat n) xs else take (length xs - nat (- n)) xs)"

text \<open>
  The JSON-like values a structured generation call hands back. Floats do not occur in
  the fields the guard reads and are left out.
\<close>

datatype pyval =
    PNone
  | PBool bool
  | PInt int
  | PStr string
  | PList "pyval list"
  | PDict "(string \<times> pyval) list"

fun truthy :: "pyval \<Rightarrow> bool" where
  "truthy PNone = False"
| "truthy (PBool b) = b"
| "truthy (PInt i) = (i \<noteq> 0)"
| "truthy (PStr s) = (s \<noteq> [])"
| "truthy (PList xs) = (xs \<noteq> [])"
| "truthy (PDict kvs) = (kvs \<noteq> [])"

text \<open>\<open>d.get(key)\<close>: \<open>None\<close> for a missing key.\<close>

definition dict_get :: "(string \<times> pyval) list \<Rightarrow> string \<Rightarrow> pyval" where
  "dict_get d k = (case map_of d k of None \<Rightarrow> PNone | Some v \<Rightarrow> v)"

datatype py_error =
    AttributeError
  | IndexError
  | ServiceError string

text \<open>\<open>(v or "").strip()\<close>: a truthy value that is not a string has no \<open>strip\<close>.\<close>

definition or_empty_strip :: "pyval \<Rightarrow> py_error + string" where
  "or_empty_strip v =
     (if \<not> truthy v then Inr (strip [])
      else case v of PStr s \<Rightarrow> Inr (strip s) | _ \<Rightarrow> Inl AttributeError)"

section \<open>Text utilities (utils/text\_utils.py)\<close>

definition is_token_char :: "char \<Rightarrow> bool" where
  "is_token_char c \<longleftrightarrow>
     (let n = (of_char c :: nat)
      in (65 \<le> n \<and> n \<le> 90) \<or> (97 \<le> n \<and> n \<le> 122) \<or> (48 \<le> n \<and> n \<le> 57) \<or> n = 39)"

text \<open>
  \<open>_TOKEN_PATTERN.finditer\<close>: the maximal runs of token characters, left to right.
  \<open>scan cur text\<close> carries the run read so far, reversed.
\<close>

fun scan :: "string \<Rightarrow> string \<Rightarrow> string list" where
  "scan cur [] = (if cur = [] then [] else [rev cur])"
| "scan cur (c # cs) =
     (if is_token_char c then scan (c # cur) cs
      else if cur = [] then scan [] cs
      else rev cur # scan [] cs)"

definition tokenize :: "string \<Rightarrow> string list" where
  "tokenize text = (if text = [] then [] else map lower (scan [] text))"

definition STOPWORDS :: "string list" where
  "STOPWORDS =
    [''a'', ''an'', ''and'', ''are'', ''as'', ''at'', ''be'', ''but'', ''by'', ''for'',
     ''from'', ''has'', ''have'', ''he'', ''her'', ''hers'', ''him'', ''his'', ''how'', ''i'',
     ''if'', ''in'', ''is'', ''it'', ''its'', ''it'' @ [CHR 0x27] @ ''s'', ''just'', ''me'', ''my'',
     ''of'', ''on'', ''or'', ''our'', ''ours'', ''she'', ''so'', ''than'', ''that'', ''the'',
     ''their'', ''them'', ''there'', ''these'', ''they'', ''this'', ''those'', ''to'', ''too'',
     ''up'', ''was'', ''we'', ''were'', ''what'', ''when'', ''where'', ''which'', ''who'',
     ''will'', ''with'', ''you'', ''your'', ''you'' @ [CHR 0x27] @ ''re'', ''amp'', ''rt'',
     ''http'', ''https'', ''www'']"

definition keep_token :: "string \<Rightarrow> bool" where
  "keep_token t \<longleftrightarrow> 2 < length t \<and> t \<notin> set STOPWORDS"

definition tokenize_for_overlap :: "string \<Rightarrow> string set" where
  "tokenize_for_overlap text = {t \<in> set (tokenize text). t \<notin> set STOPWORDS \<and> 2 < length t}"

text \<open>
  A \<open>Counter\<close> keeps its keys in the order of their first insertion; it is an
  association list here. \<open>counter[token] += 1\<close>:
\<close>

fun counter_incr :: "(string \<times> nat) list \<Rightarrow> string \<Rightarrow> (string \<times> nat) list" where
  "counter_incr [] t = [(t, 1)]"
| "counter_incr ((k, n) # kvs) t =
     (if k = t then (k, Suc n) # kvs else (k, n) # counter_incr kvs t)"

definition counter_get :: "(string \<times> nat) list \<Rightarrow> string \<Rightarrow> nat" where
  "counter_get counter t = (case map_of counter t of None \<Rightarrow> 0 | Some n \<Rightarrow> n)"

text \<open>The body of the inner loop, for one token, and the inner loop for one text.\<close>

definition count_token :: "(string \<times> nat) list \<Rightarrow> string \<Rightarrow> (string \<times> nat) list" where
  "count_token counter token =
     (if length token \<le> 2 then counter
      else if token \<in> set STOPWORDS then counter
      else counter_incr counter token)"

definition count_text :: "(string \<times> nat) list \<Rightarrow> string \<Rightarrow> (string \<times> nat) list" where
  "count_text counter text = foldl count_token counter (tokenize text)"

text \<open>The sort key of \<open>extract_keywords_from_texts\<close>: \<open>(counter[t], -len(t), t)\<close>.\<close>

definition keyword_key :: "(string \<times> nat) list \<Rightarrow> string \<Rightarrow> nat \<times> int \<times> string" where
  "keyword_key counter t = (counter_get counter t, - int (length t), t)"

text \<open>
  \<open>sorted(xs, key=k, reverse=True)\<close>: descending in the key, elements with equal keys
  in their original order.
\<close>

definition sorted_reverse :: "('a \<Rightarrow> 'k::linorder) \<Rightarrow> 'a list \<Rightarrow> 'a list" where
  "sorted_reverse k xs = rev (sort_key k (rev xs))"

definition extract_keywords_from_texts :: "string list \<Rightarrow> int \<Rightarrow> int \<Rightarrow> string list" where
  "extract_keywords_from_texts texts max_keywords min_frequency =
     (let counter = foldl count_text [] texts
      in if counter = [] then []
         else let filtered0 = map fst (filter (\<lambda>(token, count). min_frequency \<le> int count) counter);
                  filtered = (if filtered0 = [] then map fst counter else filtered0);
                  top_tokens = sorted_reverse (keyword_key counter) filtered
              in py_take max_keywords top_tokens)"

text \<open>
  The ranking stated independently of the \<open>Counter\<close>: the frequency of a token is the
  number of its occurrences among the tokens of all texts; the candidates are the kept
  tokens that reach the minimum frequency, or all kept tokens when none does; and one
  token ranks before another when it is more frequent, or as frequent and shorter, or
  as frequent and as long and later in lexicographic order.
\<close>

definition all_tokens :: "string list \<Rightarrow> string list" where
  "all_tokens texts = concat (map tokenize texts)"

definition frequency :: "string list \<Rightarrow> string \<Rightarrow> nat" where
  "frequency texts t = count_list (all_tokens texts) t"

definition keyword_candidates :: "string list \<Rightarrow> int \<Rightarrow> string set" where
  "keyword_candidates texts min_frequency =
     (let kept = {t \<in> set (all_tokens texts). keep_token t};
          frequent = {t \<in> kept. min_frequency \<le> int (frequency texts t)}
      in if frequent = {} then kept else frequent)"

definition ranks_before :: "string list \<Rightarrow> string \<Rightarrow> string \<Rightarrow> bool" where
  "ranks_before texts a b \<longleftrightarrow>
     frequency texts b < frequency texts a \<or>
     (frequency texts a = frequency texts b \<and>
        (length a < length b \<or> (length a = length b \<and> b < a)))"

section \<open>Guarded reply generation (features/publisher/reply\_generator.py)\<close>

definition MAX_REPLY_CHARS :: nat where
  "MAX_REPLY_CHARS = 270"

definition DEFAULT_OFF_TOPIC_TERMS :: "string list" where
  "DEFAULT_OFF_TOPIC_TERMS =
    [''claude'', ''anthropic'', ''openai'', ''chatgpt'', ''opencv'', ''repo'',
     ''pull request'', ''merge request'', ''commit'', ''stack trace'', ''stacktrace'',
     ''exception'', ''bugfix'', ''script'', ''terminal'', ''command line'']"

text \<open>The fields of \<open>ScrapedTweet\<close> that the scheduler and the reply guard read.\<close>

record scraped_tweet =
  tweet_id :: "string option"
  user_handle :: "string option"
  text_content :: "string option"
  like_count :: "nat option"
  retweet_count :: "nat option"
  reply_count :: "nat option"
  view_count :: "nat option"

text \<open>
  \<open>_prepare_tweet_context\<close>: the stripped text and its six keywords. The tone, media
  note and descriptor only enter the instruction text sent to the service.
\<close>

record tweet_context =
  ctx_text :: string
  ctx_keywords :: "string list"

definition prepare_tweet_context :: "scraped_tweet \<Rightarrow> tweet_context" where
  "prepare_tweet_context tweet =
     (let text = strip (case text_content tweet of None \<Rightarrow> [] | Some t \<Rightarrow> t)
      in \<lparr>ctx_text = text, ctx_keywords = extract_keywords_from_texts [text] 6 1\<rparr>)"

definition find_off_topic_terms :: "string \<Rightarrow> string \<Rightarrow> string list \<Rightarrow> string list" where
  "find_off_topic_terms reply_text tweet_text allowed_terms =
     (let reply_lower = lower reply_text;
          allowed = lower ` set allowed_terms \<union> tokenize_for_overlap tweet_text
      in filter (\<lambda>term. py_in term reply_lower \<and> term \<notin> allowed) DEFAULT_OFF_TOPIC_TERMS)"

record metadata =
  relevance_reason :: string
  referenced_topics :: pyval
  attempts :: nat
  flagged_terms :: "string list"

text \<open>
  The body of one pass of the retry loop after the service has answered: either the
  reply is accepted, with its metadata fields, or the pass sets \<open>last_error\<close>.
\<close>

datatype verdict =
    Accepted string string pyval
  | Rejected string

definition check_attempt :: "tweet_context \<Rightarrow> pyval \<Rightarrow> string option \<Rightarrow> py_error + verdict" where
  "check_attempt ctx data err =
     (case data of
        PDict d \<Rightarrow>
          if d = [] then
            Inr (Rejected (case err of None \<Rightarrow> ''No structured response produced.''
                           | Some e \<Rightarrow> if e = [] then ''No structured response produced.'' else e))
          else
            (case or_empty_strip (dict_get d ''reply_text'') of
               Inl e \<Rightarrow> Inl e
             | Inr reply0 \<Rightarrow>
                 let reply_text = (if reply0 \<noteq> [] then rstrip (take MAX_REPLY_CHARS reply0) else reply0);
                     is_relevant = truthy (dict_get d ''is_relevant'')
                 in (case or_empty_strip (dict_get d ''relevance_reason'') of
                       Inl e \<Rightarrow> Inl e
                     | Inr reason \<Rightarrow>
                         let topics = (if truthy (dict_get d ''referenced_topics'')
                                       then dict_get d ''referenced_topics'' else PList []);
                             flagged = (if reply_text \<noteq> []
                                        then find_off_topic_terms reply_text (ctx_text ctx) (ctx_keywords ctx)
                                        else []);
                             too_long = (reply_text \<noteq> [] \<and> MAX_REPLY_CHARS < length reply_text);
                             missing_reply = (reply_text = [])
                         in if missing_reply then Inr (Rejected ''No reply text returned.'')
                            else if too_long then Inr (Rejected ''Reply exceeded character limit.'')
                            else if \<not> is_relevant then
                              Inr (Rejected (if reason \<noteq> [] then reason
                                             else ''Model flagged reply as not relevant.''))
                            else if flagged \<noteq> [] then
                              Inr (Rejected (''Reply referenced off-topic terms: ''
                                             @ join '', '' flagged @ ''.''))
                            else Inr (Accepted reply_text reason topics)))
      | _ \<Rightarrow>
          Inr (Rejected (case err of None \<Rightarrow> ''No structured response produced.''
                         | Some e \<Rightarrow> if e = [] then ''No structured response produced.'' else e)))"

text \<open>
  \<open>llm_service.generate_structured\<close> is a collaborator with a state of its own: it
  answers \<open>(data, err)\<close> or raises. Between two passes of the loop only the feedback
  in the instruction changes, so the service is given the feedback. The session keeps
  the service state and the log of the calls made, one entry for each call.
\<close>

type_synonym 's llm_service =
  "'s \<Rightarrow> string option \<Rightarrow> (py_error + pyval \<times> string option) \<times> 's"

record 's session =
  service_state :: 's
  calls :: "string option list"

definition call_generate_structured ::
  "'s llm_service \<Rightarrow> 's session \<Rightarrow> string option \<Rightarrow> (py_error + pyval \<times> string option) \<times> 's session" where
  "call_generate_structured svc w feedback =
     (case svc (service_state w) feedback of
        (out, s') \<Rightarrow> (out, \<lparr>service_state = s', calls = calls w @ [feedback]\<rparr>))"

function guard_loop ::
  "'s llm_service \<Rightarrow> tweet_context \<Rightarrow> nat \<Rightarrow> nat \<Rightarrow> string option \<Rightarrow> 's session
     \<Rightarrow> (py_error + string option \<times> metadata) \<times> 's session" where
  "guard_loop svc ctx max_attempts attempt last_error w =
     (if attempt < max_attempts then
        (case call_generate_structured svc w (if 0 < attempt then last_error else None) of
           (Inl e, w') \<Rightarrow> (Inl e, w')
         | (Inr (data, err), w') \<Rightarrow>
             (case check_attempt ctx data err of
                Inl e \<Rightarrow> (Inl e, w')
              | Inr (Accepted reply_text reason topics) \<Rightarrow>
                  (Inr (Some reply_text,
                        \<lparr>relevance_reason = reason, referenced_topics = topics,
                         attempts = attempt + 1, flagged_terms = []\<rparr>), w')
              | Inr (Rejected msg) \<Rightarrow>
                  guard_loop svc ctx max_attempts (attempt + 1) (Some msg) w'))
      else
        (Inr (None,
              \<lparr>relevance_reason =
                 (case last_error of None \<Rightarrow> ''Unknown guard failure.''
                  | Some e \<Rightarrow> if e = [] then ''Unknown guard failure.'' else e),
               referenced_topics = PList [], attempts = attempt, flagged_terms = []\<rparr>), w))"
  by pat_completeness auto
termination
  by (relation "measure (\<lambda>(svc, ctx, max_attempts, attempt, last_error, w). max_attempts - attempt)") auto

declare guard_loop.simps [simp del]

definition generate_guarded_reply ::
  "'s llm_service \<Rightarrow> scraped_tweet \<Rightarrow> int \<Rightarrow> 's
     \<Rightarrow> (py_error + string option \<times> metadata) \<times> 's session" where
  "generate_guarded_reply svc tweet retry_limit s0 =
     guard_loop svc (prepare_tweet_context tweet) (nat (max 1 retry_limit)) 0 None
       \<lparr>service_state = s0, calls = []\<rparr>"

subsection \<open>The stub service of tests/test\_reply\_generator.py\<close>

text \<open>
  \<open>StubLLMService\<close> answers with its queued responses in order and with
  \<open>(None, "no-response")\<close> once the queue is empty. Its state is the queue.
\<close>

definition stub_service :: "(pyval \<times> string option) list llm_service" where
  "stub_service queue feedback =
     (case queue of
        [] \<Rightarrow> (Inr (PNone, Some ''no-response''), [])
      | r # rest \<Rightarrow> (Inr r, rest))"

definition structured_reply :: "string \<Rightarrow> bool \<Rightarrow> string \<Rightarrow> string list \<Rightarrow> pyval \<times> string option" where
  "structured_reply text relevant reason topics =
     (PDict [(''reply_text'', PStr text), (''is_relevant'', PBool relevant),
             (''relevance_reason'', PStr reason), (''referenced_topics'', PList (map PStr topics))],
      None)"

definition tweet_with_text :: "string \<Rightarrow> string \<Rightarrow> string \<Rightarrow> scraped_tweet" where
  "tweet_with_text ident handle text =
     \<lparr>tweet_id = Some ident, user_handle = Some handle, text_content = Some text,
      like_count = None, retweet_count = None, reply_count = None, view_count = None\<rparr>"

section \<open>Action decision (main.py, \_decide\_competitor\_action)\<close>

text \<open>
  Relevance scores and thresholds are Python floats; they are only compared, and are
  modelled by the real numbers they denote (no NaN). The account's \<open>ActionConfig\<close> and
  the global \<open>engagement_decision\<close> settings carry the fields read here; an unset field
  is \<open>None\<close>.
\<close>

record action_config =
  enable_engagement_decision :: "bool option"
  use_sentiment_in_decision :: "bool option"
  decision_quote_min :: "real option"
  decision_retweet_min :: "real option"
  decision_repost_min :: "real option"
  competitor_post_interaction_type :: string

record engagement_decision_cfg =
  cfg_enabled :: "bool option"
  cfg_use_sentiment :: "bool option"
  cfg_quote_min :: "real option"
  cfg_retweet_min :: "real option"
  cfg_repost_min :: "real option"

text \<open>
  The analyzer is a collaborator; each of its three calls answers or raises.
  \<open>analyze_tweet_structured\<close> is modelled by what the code reads from its answer: when
  the answer is a non-empty dict holding \<open>recommended_action\<close>, the relevance as
  \<open>float(... or 0.0)\<close> gives it and the recommendation as \<open>str(...).lower()\<close> gives it;
  otherwise nothing.
\<close>

record analyzer =
  analyze_tweet_structured :: "py_error + (real \<times> string) option"
  score_relevance :: "py_error + real"
  classify_sentiment :: "py_error + string"

text \<open>\<open>override if (acc_ac and override is not None) else fallback\<close>.\<close>

definition account_or :: "action_config option \<Rightarrow> (action_config \<Rightarrow> 'a option) \<Rightarrow> 'a \<Rightarrow> 'a" where
  "account_or acc_ac field fallback =
     (case acc_ac of
        None \<Rightarrow> fallback
      | Some ac \<Rightarrow> (case field ac of None \<Rightarrow> fallback | Some v \<Rightarrow> v))"

definition decision_enabled :: "engagement_decision_cfg \<Rightarrow> action_config option \<Rightarrow> bool" where
  "decision_enabled cfg acc_ac =
     account_or acc_ac enable_engagement_decision
       (case cfg_enabled cfg of None \<Rightarrow> False | Some b \<Rightarrow> b)"

definition use_sentiment :: "engagement_decision_cfg \<Rightarrow> action_config option \<Rightarrow> bool" where
  "use_sentiment cfg acc_ac =
     account_or acc_ac use_sentiment_in_decision
       (case cfg_use_sentiment cfg of None \<Rightarrow> True | Some b \<Rightarrow> b)"

definition quote_min :: "engagement_decision_cfg \<Rightarrow> action_config option \<Rightarrow> real" where
  "quote_min cfg acc_ac =
     account_or acc_ac decision_quote_min (case cfg_quote_min cfg of None \<Rightarrow> 0.75 | Some v \<Rightarrow> v)"

definition retweet_min :: "engagement_decision_cfg \<Rightarrow> action_config option \<Rightarrow> real" where
  "retweet_min cfg acc_ac =
     account_or acc_ac decision_retweet_min (case cfg_retweet_min cfg of None \<Rightarrow> 0.5 | Some v \<Rightarrow> v)"

definition repost_min :: "engagement_decision_cfg \<Rightarrow> action_config option \<Rightarrow> real" where
  "repost_min cfg acc_ac =
     account_or acc_ac decision_repost_min (case cfg_repost_min cfg of None \<Rightarrow> 0.35 | Some v \<Rightarrow> v)"

text \<open>The sentiment the fallback uses: \<open>neutral\<close> when unused or when the classifier raises.\<close>

definition fallback_sentiment :: "engagement_decision_cfg \<Rightarrow> action_config option \<Rightarrow> analyzer \<Rightarrow> string" where
  "fallback_sentiment cfg acc_ac an =
     (if use_sentiment cfg acc_ac
      then (case classify_sentiment an of Inl e \<Rightarrow> ''neutral'' | Inr s \<Rightarrow> s)
      else ''neutral'')"

definition fallback_action :: "engagement_decision_cfg \<Rightarrow> action_config option \<Rightarrow> analyzer \<Rightarrow> py_error + string" where
  "fallback_action cfg acc_ac an =
     (case score_relevance an of
        Inl e \<Rightarrow> Inl e
      | Inr rel \<Rightarrow>
          let sentiment = fallback_sentiment cfg acc_ac an
          in if quote_min cfg acc_ac \<le> rel \<and> sentiment \<in> {''positive'', ''neutral''}
             then Inr ''quote_tweet''
             else if retweet_min cfg acc_ac \<le> rel \<and> sentiment \<in> {''positive'', ''neutral''}
             then Inr ''retweet''
             else if repost_min cfg acc_ac \<le> rel then Inr ''repost''
             else Inr ''like'')"

definition decide_competitor_action :: "engagement_decision_cfg \<Rightarrow> action_config option \<Rightarrow> analyzer \<Rightarrow> py_error + string" where
  "decide_competitor_action cfg acc_ac an =
     (if \<not> decision_enabled cfg acc_ac then
        Inr (case acc_ac of None \<Rightarrow> ''repost'' | Some ac \<Rightarrow> competitor_post_interaction_type ac)
      else
        (case analyze_tweet_structured an of
           Inl e \<Rightarrow> Inl e
         | Inr None \<Rightarrow> fallback_action cfg acc_ac an
         | Inr (Some (rel, rec)) \<Rightarrow>
             if rel < repost_min cfg acc_ac then Inr ''like''
             else if rec \<in> {''quote_tweet'', ''retweet'', ''repost'', ''like''} then Inr rec
             else fallback_action cfg acc_ac an))"

definition default_cfg :: engagement_decision_cfg where
  "default_cfg = \<lparr>cfg_enabled = Some True, cfg_use_sentiment = None, cfg_quote_min = None,
                  cfg_retweet_min = None, cfg_repost_min = None\<rparr>"

definition analyzer_scoring :: "real \<Rightarrow> string \<Rightarrow> analyzer" where
  "analyzer_scoring rel sentiment =
     \<lparr>analyze_tweet_structured = Inr None, score_relevance = Inr rel,
      classify_sentiment = Inr sentiment\<rparr>"

text \<open>
  More analyzers and settings for examples: a classifier that raises, a structured answer
  whose recommendation is none of the four actions, and sentiment switched off.
\<close>

definition analyzer_unclassified :: "real \<Rightarrow> analyzer" where
  "analyzer_unclassified rel =
     \<lparr>analyze_tweet_structured = Inr None, score_relevance = Inr rel,
      classify_sentiment = Inl (ServiceError ''classifier unavailable'')\<rparr>"

definition analyzer_recommending :: "real \<Rightarrow> string \<Rightarrow> real \<Rightarrow> string \<Rightarrow> analyzer" where
  "analyzer_recommending structured_rel rec rel sentiment =
     \<lparr>analyze_tweet_structured = Inr (Some (structured_rel, rec)), score_relevance = Inr rel,
      classify_sentiment = Inr sentiment\<rparr>"

definition no_sentiment_cfg :: engagement_decision_cfg where
  "no_sentiment_cfg = default_cfg\<lparr>cfg_use_sentiment := Some False\<rparr>"

section \<open>Style snapshot (features/publisher/style\_utils.py)\<close>

text \<open>
  The context block ends in the ellipsis U+2026, which lies outside \<^typ>\<open>char\<close>; the
  texts of this module are lists of code points, so that \<open>length\<close> is Python's
  \<open>len\<close> for every text.
\<close>

type_synonym ustr = "nat list"

definition ucs :: "string \<Rightarrow> ustr" where
  "ucs s = map of_char s"

definition ELLIPSIS :: ustr where
  "ELLIPSIS = [8230]"

text \<open>The code points that \<open>str.split()\<close> and \<open>str.rstrip()\<close> treat as whitespace.\<close>

definition u_isspace :: "nat \<Rightarrow> bool" where
  "u_isspace n \<longleftrightarrow>
     (9 \<le> n \<and> n \<le> 13) \<or> (28 \<le> n \<and> n \<le> 32) \<or> n = 133 \<or> n = 160 \<or> n = 5760 \<or>
     (8192 \<le> n \<and> n \<le> 8202) \<or> n = 8232 \<or> n = 8233 \<or> n = 8239 \<or> n = 8287 \<or> n = 12288"

definition u_rstrip :: "ustr \<Rightarrow> ustr" where
  "u_rstrip s = rev (dropWhile u_isspace (rev s))"

text \<open>\<open>text.split()\<close>: the maximal runs of non-whitespace code points.\<close>

fun u_split :: "ustr \<Rightarrow> ustr \<Rightarrow> ustr list" where
  "u_split cur [] = (if cur = [] then [] else [rev cur])"
| "u_split cur (c # cs) =
     (if \<not> u_isspace c then u_split (c # cur) cs
      else if cur = [] then u_split [] cs
      else rev cur # u_split [] cs)"

fun u_join :: "ustr \<Rightarrow> ustr list \<Rightarrow> ustr" where
  "u_join sep [] = []"
| "u_join sep [x] = x"
| "u_join sep (x # y # ys) = x @ sep @ u_join sep (y # ys)"

text \<open>\<open>str(n)\<close> for a natural number.\<close>

fun decimal :: "nat \<Rightarrow> ustr" where
  "decimal n = (if n < 10 then [48 + n] else decimal (n div 10) @ [48 + n mod 10])"

declare decimal.simps [simp del]

text \<open>
  What the context text reads of a selected \<open>ScrapedTweet\<close>: its text and, when it has a
  creation time, the label \<open>strftime("%Y-%m-%d %H:%M UTC")\<close> gives for that time in UTC.
\<close>

record style_post =
  post_text :: "ustr option"
  post_created_label :: "ustr option"

definition snippet :: "style_post \<Rightarrow> ustr" where
  "snippet p =
     take 220 (u_join (ucs '' '') (u_split [] (case post_text p of None \<Rightarrow> [] | Some t \<Rightarrow> t)))"

definition timestamp_label :: "style_post \<Rightarrow> ustr" where
  "timestamp_label p =
     (case post_created_label p of None \<Rightarrow> ucs ''Unknown time'' | Some l \<Rightarrow> l)"

text \<open>\<open>f"{idx}. {timestamp_label} | {snippet}"\<close>, with \<open>idx\<close> counting from \<open>start\<close>.\<close>

fun context_lines :: "nat \<Rightarrow> style_post list \<Rightarrow> ustr list" where
  "context_lines idx [] = []"
| "context_lines idx (p # ps) =
     (decimal idx @ ucs ''. '' @ timestamp_label p @ ucs '' | '' @ snippet p)
       # context_lines (idx + 1) ps"

definition uncapped_context_text :: "style_post list \<Rightarrow> ustr" where
  "uncapped_context_text selected =
     ucs ''Recent personal posting snapshot:'' @ [10] @ u_join [10] (context_lines 1 selected)"

text \<open>
  The context text \<open>build_style_snapshot\<close> returns for the posts it has selected (the
  filtered, deduplicated, newest-first \<open>max_items\<close> posts, a non-empty list).
\<close>

definition style_context_text :: "style_post list \<Rightarrow> ustr" where
  "style_context_text selected =
     (let text = uncapped_context_text selected
      in if 800 < length text then u_rstrip (take 800 text) @ ELLIPSIS else text)"

definition long_post :: style_post where
  "long_post = \<lparr>post_text = Some (replicate 220 97), post_created_label = None\<rparr>"

section \<open>Backend router (core/llm\_service/generator.py, TextGenerator.generate\_text)\<close>

text \<open>
  The three clients are collaborators that answer or raise. A call hands a client the
  model name, the system prompt, the prior messages, the prompt, the inline media and
  the remaining keyword parameters; the message list the code builds from them is not
  spelled out. The Gemini client answers a message whose content is returned as it is;
  the OpenAI and Azure clients answer a list of choices, of which
  \<open>response.choices[0].message.content.strip()\<close> is returned. The clients share a world
  state, so that a client called twice may answer differently.
\<close>

record request =
  req_model :: pyval
  req_system :: "string option"
  req_history :: "(string \<times> string) list option"
  req_prompt :: string
  req_media :: pyval
  req_params :: "string \<rightharpoonup> pyval"

type_synonym 'w gemini_client = "'w \<Rightarrow> request \<Rightarrow> (py_error + string) \<times> 'w"
type_synonym 'w chat_client = "'w \<Rightarrow> request \<Rightarrow> (py_error + string option list) \<times> 'w"

record service_config =
  default_params :: "string \<rightharpoonup> pyval"
  cfg_model :: "pyval option"
  cfg_deployment_name :: "pyval option"

record 'w text_generator =
  gemini_client :: "'w gemini_client option"
  openai_client :: "'w chat_client option"
  azure_openai_client :: "'w chat_client option"
  service_settings :: "string \<Rightarrow> service_config"
  default_max_tokens :: "pyval option"
  service_preference_order :: "string list option"

record call =
  call_prompt :: string
  call_service_preference :: "string option"
  call_system_prompt :: "string option"
  call_messages :: "(string \<times> string) list option"
  call_params :: "string \<rightharpoonup> pyval"

definition services_to_try :: "'w text_generator \<Rightarrow> call \<Rightarrow> string list" where
  "services_to_try gen c =
     (let order = (case service_preference_order gen of
                     None \<Rightarrow> [''azure'', ''openai'', ''gemini''] | Some l \<Rightarrow> l)
      in case call_service_preference c of
           None \<Rightarrow> order
         | Some p \<Rightarrow> if p = [] then order
                     else if p \<in> set order then p # remove1 p order
                     else p # order)"

text \<open>
  \<open>final_params\<close> before the inline media is popped: the service defaults overridden by
  the call parameters, \<open>model_name\<close> renamed to \<open>model\<close>, and \<open>max_tokens\<close> defaulted.
\<close>

definition final_params :: "'w text_generator \<Rightarrow> call \<Rightarrow> string \<Rightarrow> (string \<rightharpoonup> pyval)" where
  "final_params gen c service_name =
     (let p0 = default_params (service_settings gen service_name) ++ call_params c;
          p1 = (if p0 ''model_name'' \<noteq> None \<and> p0 ''model'' = None
                then (p0(''model'' := p0 ''model_name''))(''model_name'' := None) else p0)
      in if p1 ''max_tokens'' = None
         then p1(''max_tokens'' \<mapsto> (case default_max_tokens gen of None \<Rightarrow> PInt 250 | Some v \<Rightarrow> v))
         else p1)"

text \<open>\<open>final_params.pop('inline_media', []) or []\<close>.\<close>

definition inline_media_payload :: "(string \<rightharpoonup> pyval) \<Rightarrow> pyval" where
  "inline_media_payload params =
     (case params ''inline_media'' of
        None \<Rightarrow> PList []
      | Some v \<Rightarrow> if truthy v then v else PList [])"

text \<open>\<open>params.pop('model', fallback)\<close>: the value taken.\<close>

definition pop_model :: "(string \<rightharpoonup> pyval) \<Rightarrow> pyval \<Rightarrow> pyval" where
  "pop_model params fallback = (case params ''model'' of None \<Rightarrow> fallback | Some v \<Rightarrow> v)"

definition truthy_prompt :: "string option \<Rightarrow> bool" where
  "truthy_prompt sp = (case sp of None \<Rightarrow> False | Some s \<Rightarrow> s \<noteq> [])"

text \<open>What happened with one service of the preference list.\<close>

datatype attempt =
    Returned string
  | Raised py_error
  | MissingDeployment
  | UnknownService
  | NotAvailable

fun is_returned :: "attempt \<Rightarrow> bool" where
  "is_returned (Returned text) = True"
| "is_returned a = False"

definition chat_result :: "py_error + string option list \<Rightarrow> attempt" where
  "chat_result out =
     (case out of
        Inl e \<Rightarrow> Raised e
      | Inr [] \<Rightarrow> Raised IndexError
      | Inr (None # rest) \<Rightarrow> Raised AttributeError
      | Inr (Some content # rest) \<Rightarrow> Returned (strip content))"

definition chat_request :: "call \<Rightarrow> pyval \<Rightarrow> pyval \<Rightarrow> (string \<rightharpoonup> pyval) \<Rightarrow> request" where
  "chat_request c model media params =
     \<lparr>req_model = model,
      req_system = (if call_messages c = None \<and> truthy_prompt (call_system_prompt c)
                    then call_system_prompt c else None),
      req_history = call_messages c,
      req_prompt = strip (call_prompt c),
      req_media = media,
      req_params = params\<rparr>"

text \<open>The body of the loop for one service name: the \<open>try\<close> block and its handler.\<close>

definition try_service :: "'w text_generator \<Rightarrow> call \<Rightarrow> string \<Rightarrow> 'w \<Rightarrow> attempt \<times> 'w" where
  "try_service gen c service_name w =
     (let service_config = service_settings gen service_name;
          params0 = final_params gen c service_name;
          media = inline_media_payload params0;
          params = params0(''inline_media'' := None)
      in if service_name = ''gemini'' \<and> gemini_client gen \<noteq> None then
           (let model_to_use = pop_model params
                  (case cfg_model service_config of None \<Rightarrow> PStr ''gemini-2.5-pro'' | Some m \<Rightarrow> m);
                p1 = params(''model'' := None);
                p2 = (if p1 ''max_tokens'' \<noteq> None \<and> p1 ''max_output_tokens'' = None
                      then (p1(''max_output_tokens'' := p1 ''max_tokens''))(''max_tokens'' := None)
                      else p1)
            in case the (gemini_client gen) w
                 \<lparr>req_model = model_to_use,
                  req_system = (if truthy_prompt (call_system_prompt c)
                                then map_option strip (call_system_prompt c) else None),
                  req_history = None,
                  req_prompt = strip (call_prompt c),
                  req_media = media,
                  req_params = p2\<rparr> of
                 (Inl e, w') \<Rightarrow> (Raised e, w')
               | (Inr content, w') \<Rightarrow> (Returned content, w'))
         else if service_name = ''azure'' \<and> azure_openai_client gen \<noteq> None then
           (let deployment_name = pop_model params
                  (case cfg_deployment_name service_config of None \<Rightarrow> PNone | Some d \<Rightarrow> d)
            in if \<not> truthy deployment_name then (MissingDeployment, w)
               else case the (azure_openai_client gen) w
                      (chat_request c deployment_name media (params(''model'' := None))) of
                      (out, w') \<Rightarrow> (chat_result out, w'))
         else if service_name = ''openai'' \<and> openai_client gen \<noteq> None then
           (let model_to_use = pop_model params
                  (case cfg_model service_config of None \<Rightarrow> PStr ''gpt-3.5-turbo'' | Some m \<Rightarrow> m)
            in case the (openai_client gen) w
                 (chat_request c model_to_use media (params(''model'' := None))) of
                 (out, w') \<Rightarrow> (chat_result out, w'))
         else if service_name \<notin> set [''gemini'', ''azure'', ''openai''] then (UnknownService, w)
         else (NotAvailable, w))"

text \<open>
  The loop over the services: it returns at the first service that answers and goes on
  to the next one otherwise. It returns the result, what happened with each service it
  visited, in order, and the world state.
\<close>

fun try_services ::
  "'w text_generator \<Rightarrow> call \<Rightarrow> string list \<Rightarrow> 'w \<Rightarrow> string option \<times> (string \<times> attempt) list \<times> 'w" where
  "try_services gen c [] w = (None, [], w)"
| "try_services gen c (service_name # rest) w =
     (case try_service gen c service_name w of
        (Returned text, w') \<Rightarrow> (Some text, [(service_name, Returned text)], w')
      | (failed, w') \<Rightarrow>
          (case try_services gen c rest w' of
             (result, trace, w'') \<Rightarrow> (result, (service_name, failed) # trace, w'')))"

definition generate_text ::
  "'w text_generator \<Rightarrow> call \<Rightarrow> 'w \<Rightarrow> string option \<times> (string \<times> attempt) list \<times> 'w" where
  "generate_text gen c w = try_services gen c (services_to_try gen c) w"

text \<open>Two chat clients for examples: one that raises and one that answers.\<close>

definition raising_client :: "nat chat_client" where
  "raising_client w req = (Inl (ServiceError ''connection refused''), Suc w)"

definition answering_client :: "nat chat_client" where
  "answering_client w req = (Inr [Some '' Hello there ''], Suc w)"

definition plain_settings :: "string \<Rightarrow> service_config" where
  "plain_settings service_name =
     \<lparr>default_params = Map.empty, cfg_model = None, cfg_deployment_name = Some (PStr ''prod'')\<rparr>"

definition fallback_generator :: "nat text_generator" where
  "fallback_generator =
     \<lparr>gemini_client = None, openai_client = Some answering_client,
      azure_openai_client = Some raising_client, service_settings = plain_settings,
      default_max_tokens = None, service_preference_order = None\<rparr>"

definition failing_generator :: "nat text_generator" where
  "failing_generator =
     \<lparr>gemini_client = None, openai_client = Some raising_client,
      azure_openai_client = Some raising_client, service_settings = plain_settings,
      default_max_tokens = None, service_preference_order = None\<rparr>"

definition hello_call :: call where
  "hello_call =
     \<lparr>call_prompt = ''Say hello'', call_service_preference = None, call_system_prompt = None,
      call_messages = None, call_params = Map.empty\<rparr>"

text \<open>
  A generator whose only client is an answering Azure client, with the deployment name
  \<open>prod\<close> configured, and a call that passes \<open>model_name=None\<close>, as the callers in
  main.py do when the account sets no model override.
\<close>

definition azure_only_generator :: "nat text_generator" where
  "azure_only_generator =
     \<lparr>gemini_client = None, openai_client = None,
      azure_openai_client = Some answering_client, service_settings = plain_settings,
      default_max_tokens = None, service_preference_order = None\<rparr>"

definition no_override_call :: call where
  "no_override_call = hello_call\<lparr>call_params := [''model_name'' \<mapsto> PNone]\<rparr>"

section \<open>Rate-limited scheduler (main.py, \_run\_home\_timeline\_replies)\<close>

text \<open>
  A time is a \<open>datetime\<close>, counted in microseconds; a duration in seconds is a float,
  modelled by the real number it denotes. \<open>timedelta(seconds=x)\<close> rounds to the nearest
  microsecond, halves to even.
\<close>

definition total_seconds :: "int \<Rightarrow> real" where
  "total_seconds d = real_of_int d / 1000000"

definition timedelta_seconds :: "real \<Rightarrow> int" where
  "timedelta_seconds x =
     (let y = x * 1000000; f = \<lfloor>y\<rfloor>
      in if y - of_int f < 1 / 2 then f
         else if 1 / 2 < y - of_int f then f + 1
         else if even f then f else f + 1)"

definition timedelta_hours :: "nat \<Rightarrow> int" where
  "timedelta_hours h = int h * 3600000000"

text \<open>The pacing fields of \<open>ActionConfig\<close> and the values derived from them (lines 191-195, 320-328).\<close>

record pacing_config =
  home_timeline_replies_per_hour :: "int option"
  home_timeline_max_hours :: "int option"
  min_delay_between_actions_seconds :: int
  max_delay_between_actions_seconds :: int

definition or_default :: "int option \<Rightarrow> int \<Rightarrow> int" where
  "or_default v d = (case v of None \<Rightarrow> d | Some x \<Rightarrow> if x = 0 then d else x)"

definition replies_per_hour :: "pacing_config \<Rightarrow> nat" where
  "replies_per_hour cfg = nat (max 1 (or_default (home_timeline_replies_per_hour cfg) 10))"

definition max_hours :: "pacing_config \<Rightarrow> nat" where
  "max_hours cfg = nat (max 1 (or_default (home_timeline_max_hours cfg) 3))"

definition total_cap :: "pacing_config \<Rightarrow> nat" where
  "total_cap cfg = replies_per_hour cfg * max_hours cfg"

definition min_delay :: "pacing_config \<Rightarrow> int" where
  "min_delay cfg = max 10 (min_delay_between_actions_seconds cfg)"

definition max_delay :: "pacing_config \<Rightarrow> int" where
  "max_delay cfg = max (min_delay cfg) (max_delay_between_actions_seconds cfg)"

definition spacing_min_seconds :: "pacing_config \<Rightarrow> real" where
  "spacing_min_seconds cfg = max (real_of_int (min_delay cfg)) (3600 / real (replies_per_hour cfg))"

definition spacing_max_seconds :: "pacing_config \<Rightarrow> real" where
  "spacing_max_seconds cfg =
     (let lo = spacing_min_seconds cfg;
          candidate = real_of_int (max_delay cfg);
          hi = (if candidate < lo then lo + max 30 (lo * 0.15) else candidate)
      in if hi - lo < 1 then lo + max 5 (lo * 0.05) else hi)"

text \<open>\<open>_is_own_tweet\<close> and the action key of a candidate.\<close>

record account =
  account_id :: string
  self_handles :: "string list"
  logged_in_handle :: "string option"

definition normalize_handle :: "string \<Rightarrow> string" where
  "normalize_handle h = lower (dropWhile (\<lambda>c. c = CHR ''@'') (strip h))"

definition is_own_tweet :: "string \<Rightarrow> account \<Rightarrow> bool" where
  "is_own_tweet handle_raw acct =
     (let handle = normalize_handle handle_raw;
          candidates =
            set (map normalize_handle (filter (\<lambda>h. strip h \<noteq> []) (self_handles acct)))
            \<union> (case logged_in_handle acct of
                 None \<Rightarrow> {} | Some l \<Rightarrow> if l = [] then {} else {normalize_handle l})
            \<union> (if strip (account_id acct) \<noteq> [] then {normalize_handle (account_id acct)} else {})
      in handle \<in> candidates \<and> handle \<noteq> [])"

definition action_key :: "account \<Rightarrow> string \<Rightarrow> string" where
  "action_key acct tid = ''home_reply_'' @ account_id acct @ ''_'' @ tid"

definition count_or_zero :: "nat option \<Rightarrow> real" where
  "count_or_zero v = (case v of None \<Rightarrow> 0 | Some n \<Rightarrow> real n)"

definition score_home_timeline_tweet :: "scraped_tweet \<Rightarrow> real" where
  "score_home_timeline_tweet tweet =
     count_or_zero (like_count tweet) * 2.5 + count_or_zero (retweet_count tweet) * 3.0
     + count_or_zero (reply_count tweet) * 1.2 + count_or_zero (view_count tweet) * 0.001"

text \<open>
  The collaborators of a session, over a world state: the wall clock, \<open>asyncio.sleep\<close>,
  the scraper, the generation service behind \<open>generate_guarded_reply\<close>, the publisher,
  \<open>random.uniform\<close>, and the preparation of the style context, which only feeds the
  prompts. The scraper and the publisher answer or raise.
\<close>

record 'w env =
  clock :: "'w \<Rightarrow> int \<times> 'w"
  sleep :: "real \<Rightarrow> 'w \<Rightarrow> 'w"
  scrape_home_timeline :: "nat \<Rightarrow> 'w \<Rightarrow> (py_error + scraped_tweet list) \<times> 'w"
  llm :: "'w llm_service"
  reply_to_tweet :: "scraped_tweet \<Rightarrow> string \<Rightarrow> 'w \<Rightarrow> (py_error + bool) \<times> 'w"
  uniform :: "real \<Rightarrow> real \<Rightarrow> 'w \<Rightarrow> real \<times> 'w"
  build_style_context :: "'w \<Rightarrow> 'w"

text \<open>
  Modelled from the spec: the dedup store behind \<open>file_handler\<close>, whose
  \<open>load_processed_action_keys\<close> and \<open>save_processed_action_key\<close> are not part of the
  sources at hand. The spec gives \<open>load() -> set<string>\<close> and \<open>save(key, timestamp)\<close>
  on an append-only set of keys: the store is the list of saved entries, saving appends
  one, loading gives the set of the keys saved so far.
\<close>

definition save_processed_action_key :: "string \<Rightarrow> int \<Rightarrow> (string \<times> int) list \<Rightarrow> (string \<times> int) list" where
  "save_processed_action_key key timestamp entries = entries @ [(key, timestamp)]"

definition load_processed_action_keys :: "(string \<times> int) list \<Rightarrow> string set" where
  "load_processed_action_keys entries = fst ` set entries"

text \<open>
  The variables of the session loop, the store, and a log of the publisher calls: for
  each call the time read when it completed, the action key and the outcome.
\<close>

record sched =
  replies_sent_total :: nat
  replies_this_hour :: nat
  current_hour_start :: int
  next_reply_earliest :: int
  processed_action_keys :: "string set"
  store :: "(string \<times> int) list"
  publish_log :: "(int \<times> string \<times> bool) list"

datatype candidate_outcome =
    NextCandidate
  | ReplyMade
  | Propagated py_error

text \<open>
  Lines 470-526: wait until the earliest time of the next reply, post the reply,
  schedule the next one and, on success, count the reply and record its key.
\<close>

definition wait_until :: "'w env \<Rightarrow> int \<Rightarrow> int \<Rightarrow> 'w \<Rightarrow> 'w" where
  "wait_until e earliest now w =
     (let wait_seconds = total_seconds (earliest - now)
      in if now < earliest \<and> 0 < wait_seconds then sleep e wait_seconds w else w)"

definition pace_and_publish ::
  "'w env \<Rightarrow> pacing_config \<Rightarrow> account \<Rightarrow> scraped_tweet \<Rightarrow> string \<Rightarrow> string \<Rightarrow> sched \<Rightarrow> 'w
     \<Rightarrow> candidate_outcome \<times> sched \<times> 'w" where
  "pace_and_publish e cfg acct candidate tid generated_reply_text st w =
     (case clock e w of
        (now_for_pacing, w2) \<Rightarrow>
          (case reply_to_tweet e candidate generated_reply_text
                  (wait_until e (next_reply_earliest st) now_for_pacing w2) of
                (Inl err, w4) \<Rightarrow> (Propagated err, st, w4)
              | (Inr success, w4) \<Rightarrow>
                  (case clock e w4 of
                     (attempt_completed_at, w5) \<Rightarrow>
                       (case uniform e (spacing_min_seconds cfg) (spacing_max_seconds cfg) w5 of
                          (next_delay, w6) \<Rightarrow>
                            let st1 = st\<lparr>next_reply_earliest :=
                                         attempt_completed_at + timedelta_seconds next_delay,
                                       publish_log := publish_log st @
                                         [(attempt_completed_at, action_key acct tid, success)]\<rparr>
                            in if success then
                                 (case clock e w6 of
                                    (saved_at, w7) \<Rightarrow>
                                      (ReplyMade,
                                       st1\<lparr>replies_sent_total := replies_sent_total st + 1,
                                           replies_this_hour := replies_this_hour st + 1,
                                           store := save_processed_action_key
                                                      (action_key acct tid) saved_at (store st),
                                           processed_action_keys :=
                                             insert (action_key acct tid) (processed_action_keys st)\<rparr>,
                                       w7))
                               else (NextCandidate, st1, w6)))))"

text \<open>The body of the \<open>for candidate in scored_candidates\<close> loop after the cap check.\<close>

definition process_candidate ::
  "'w env \<Rightarrow> pacing_config \<Rightarrow> account \<Rightarrow> scraped_tweet \<Rightarrow> sched \<Rightarrow> 'w \<Rightarrow> candidate_outcome \<times> sched \<times> 'w" where
  "process_candidate e cfg acct candidate st w =
     (case tweet_id candidate of
        None \<Rightarrow> (NextCandidate, st, w)
      | Some tid \<Rightarrow>
          if tid = [] then (NextCandidate, st, w)
          else if (case user_handle candidate of None \<Rightarrow> False
                   | Some h \<Rightarrow> h \<noteq> [] \<and> is_own_tweet h acct)
          then (NextCandidate, st, w)
          else if action_key acct tid \<in> processed_action_keys st then (NextCandidate, st, w)
          else
            (case generate_guarded_reply (llm e) candidate 2 w of
               (Inl err, g) \<Rightarrow> (NextCandidate, st, service_state g)
             | (Inr (None, md), g) \<Rightarrow> (NextCandidate, st, service_state g)
             | (Inr (Some generated, md), g) \<Rightarrow>
                 if generated = [] \<or> rstrip (take 270 generated) = []
                 then (NextCandidate, st, service_state g)
                 else pace_and_publish e cfg acct candidate tid (rstrip (take 270 generated))
                        st (service_state g)))"

text \<open>
  The scan of a ranked batch: it stops at a cap, at the first reply made, or when an
  exception of the publisher propagates. The first component is \<open>made_reply_this_batch\<close>.
\<close>

fun scan_batch ::
  "'w env \<Rightarrow> pacing_config \<Rightarrow> account \<Rightarrow> scraped_tweet list \<Rightarrow> sched \<Rightarrow> 'w
     \<Rightarrow> bool \<times> py_error option \<times> sched \<times> 'w" where
  "scan_batch e cfg acct [] st w = (False, None, st, w)"
| "scan_batch e cfg acct (candidate # rest) st w =
     (if replies_per_hour cfg \<le> replies_this_hour st \<or> total_cap cfg \<le> replies_sent_total st
      then (False, None, st, w)
      else case process_candidate e cfg acct candidate st w of
             (NextCandidate, st', w') \<Rightarrow> scan_batch e cfg acct rest st' w'
           | (ReplyMade, st', w') \<Rightarrow> (True, None, st', w')
           | (Propagated err, st', w') \<Rightarrow> (False, Some err, st', w'))"

datatype loop_outcome =
    Continue
  | Stop
  | Aborted py_error

text \<open>Lines 341-344: a new hour window once the current one has lasted an hour.\<close>

definition advance_hour_window :: "int \<Rightarrow> sched \<Rightarrow> sched" where
  "advance_hour_window now st =
     (if 3600 \<le> total_seconds (now - current_hour_start st)
      then st\<lparr>current_hour_start := now, replies_this_hour := 0\<rparr> else st)"

text \<open>Lines 346-366: the hourly cap is reached; wait for the next hour, within the session.\<close>

definition cooldown :: "'w env \<Rightarrow> int \<Rightarrow> int \<Rightarrow> sched \<Rightarrow> 'w \<Rightarrow> loop_outcome \<times> sched \<times> 'w" where
  "cooldown e session_end now st w =
     (let next_hour_time = current_hour_start st + timedelta_hours 1;
          remaining_session = total_seconds (session_end - now);
          sleep_seconds = max 0 (min (total_seconds (next_hour_time - now)) remaining_session)
      in if remaining_session \<le> 0 then (Stop, st, w)
         else if sleep_seconds \<le> 0 then
           (case clock e w of
              (t, w1) \<Rightarrow> (Continue, st\<lparr>current_hour_start := t, replies_this_hour := 0\<rparr>, w1))
         else
           (case clock e (sleep e sleep_seconds w) of
              (t1, w1) \<Rightarrow>
                (case clock e w1 of
                   (t2, w2) \<Rightarrow>
                     (Continue,
                      st\<lparr>next_reply_earliest := max (next_reply_earliest st) t1,
                         current_hour_start := t2, replies_this_hour := 0\<rparr>,
                      w2))))"

text \<open>Lines 368-530: fetch a batch, rank it and scan it.\<close>

definition fetch_and_scan ::
  "'w env \<Rightarrow> pacing_config \<Rightarrow> account \<Rightarrow> sched \<Rightarrow> 'w \<Rightarrow> loop_outcome \<times> sched \<times> 'w" where
  "fetch_and_scan e cfg acct st w =
     (case scrape_home_timeline e (max 40 (replies_per_hour cfg * 4)) w of
        (Inl err, w1) \<Rightarrow> (Aborted err, st, w1)
      | (Inr tweets, w1) \<Rightarrow>
          if tweets = [] then (Stop, st, w1)
          else
            (case scan_batch e cfg acct (sorted_reverse score_home_timeline_tweet tweets) st w1 of
               (made, Some err, st', w') \<Rightarrow> (Aborted err, st', w')
             | (True, None, st', w') \<Rightarrow> (Continue, st', w')
             | (False, None, st', w') \<Rightarrow> (Stop, st', w')))"

text \<open>One pass of the \<open>while replies_sent_total < total_cap\<close> loop.\<close>

definition iteration ::
  "'w env \<Rightarrow> pacing_config \<Rightarrow> account \<Rightarrow> int \<Rightarrow> sched \<Rightarrow> 'w \<Rightarrow> loop_outcome \<times> sched \<times> 'w" where
  "iteration e cfg acct session_end st w =
     (if \<not> replies_sent_total st < total_cap cfg then (Stop, st, w)
      else
        (case clock e w of
           (now, w1) \<Rightarrow>
             if session_end \<le> now then (Stop, st, w1)
             else if replies_per_hour cfg \<le> replies_this_hour (advance_hour_window now st)
             then cooldown e session_end now (advance_hour_window now st) w1
             else fetch_and_scan e cfg acct (advance_hour_window now st) w1))"

text \<open>What remains of the loop: twice the replies left, and one more during a cooldown.\<close>

definition remaining_work :: "pacing_config \<Rightarrow> sched \<Rightarrow> nat" where
  "remaining_work cfg st =
     2 * (total_cap cfg - replies_sent_total st)
     + (if replies_per_hour cfg \<le> replies_this_hour st then 1 else 0)"

function session_loop ::
  "'w env \<Rightarrow> pacing_config \<Rightarrow> account \<Rightarrow> int \<Rightarrow> sched \<Rightarrow> 'w \<Rightarrow> py_error option \<times> sched \<times> 'w" where
  "session_loop e cfg acct session_end st w =
     (case iteration e cfg acct session_end st w of
        (Continue, st', w') \<Rightarrow> session_loop e cfg acct session_end st' w'
      | (Stop, st', w') \<Rightarrow> (None, st', w')
      | (Aborted err, st', w') \<Rightarrow> (Some err, st', w'))"
  by pat_completeness auto
termination
proof -
  have candidate: "(out = ReplyMade \<longrightarrow> replies_sent_total st' = replies_sent_total st + 1) \<and>
         (out \<noteq> ReplyMade \<longrightarrow> replies_sent_total st' = replies_sent_total st \<and>
            replies_this_hour st' = replies_this_hour st)"
    if "process_candidate e cfg acct c st w = (out, st', w')"
    for e :: "'a env" and cfg acct c st w out st' w'
    using that unfolding process_candidate_def pace_and_publish_def Let_def
    by (auto split: option.splits if_splits prod.splits sum.splits)
  have batch: "made \<longrightarrow> replies_sent_total st' = replies_sent_total st + 1 \<and>
        replies_sent_total st < total_cap cfg"
    if "scan_batch e cfg acct cs st w = (made, err, st', w')"
    for e :: "'a env" and cfg acct cs st w made err st' w'
    using that
  proof (induction cs arbitrary: st w)
    case Nil
    then show ?case by simp
  next
    case (Cons c cs)
    show ?case
    proof (cases "replies_per_hour cfg \<le> replies_this_hour st \<or> total_cap cfg \<le> replies_sent_total st")
      case True
      with Cons.prems show ?thesis by auto
    next
      case False
      obtain out st1 w1 where pc: "process_candidate e cfg acct c st w = (out, st1, w1)"
        by (cases "process_candidate e cfg acct c st w")
      note cnt = candidate [OF pc]
      show ?thesis
      proof (cases out)
        case NextCandidate
        with Cons.prems False pc have "scan_batch e cfg acct cs st1 w1 = (made, err, st', w')"
          by simp
        from Cons.IH [OF this] cnt NextCandidate False show ?thesis by auto
      next
        case ReplyMade
        with Cons.prems False pc cnt show ?thesis by auto
      next
        case (Propagated x)
        with Cons.prems False pc cnt show ?thesis by auto
      qed
    qed
  qed
  have cool: "replies_this_hour st' = 0 \<and> replies_sent_total st' = replies_sent_total st"
    if "cooldown e session_end now st w = (Continue, st', w')"
    for e :: "'a env" and session_end now st w st' w'
    using that unfolding cooldown_def Let_def
    by (auto split: if_splits prod.splits)
  have fetch: "replies_sent_total st' = replies_sent_total st + 1 \<and>
        replies_sent_total st < total_cap cfg"
    if "fetch_and_scan e cfg acct st w = (Continue, st', w')"
    for e :: "'a env" and cfg acct st w st' w'
  proof -
    from that obtain tweets w1 where
      sb: "scan_batch e cfg acct (sorted_reverse score_home_timeline_tweet tweets) st w1 =
             (True, None, st', w')"
      unfolding fetch_and_scan_def
      by (auto split: if_splits prod.splits sum.splits option.splits bool.splits)
    from batch [OF sb] show ?thesis by simp
  qed
  have decreases: "remaining_work cfg st' < remaining_work cfg st"
    if it: "iteration e cfg acct session_end st w = (Continue, st', w')"
    for e :: "'a env" and cfg acct session_end st w st' w'
  proof -
    obtain now w1 where ck: "clock e w = (now, w1)" by (cases "clock e w")
    let ?st1 = "advance_hour_window now st"
    have rw1: "remaining_work cfg ?st1 \<le> remaining_work cfg st"
      by (simp add: advance_hour_window_def remaining_work_def)
    show ?thesis
    proof (cases "replies_per_hour cfg \<le> replies_this_hour ?st1")
      case True
      with it ck have "cooldown e session_end now ?st1 w1 = (Continue, st', w')"
        by (simp add: iteration_def split: if_splits)
      from cool [OF this] have "replies_this_hour st' = 0"
        "replies_sent_total st' = replies_sent_total ?st1" by simp_all
      moreover have "0 < replies_per_hour cfg" by (simp add: replies_per_hour_def)
      ultimately have "remaining_work cfg st' < remaining_work cfg ?st1"
        using True by (simp add: remaining_work_def)
      with rw1 show ?thesis by simp
    next
      case False
      with it ck have "fetch_and_scan e cfg acct ?st1 w1 = (Continue, st', w')"
        by (simp add: iteration_def split: if_splits)
      from fetch [OF this]
      have a: "replies_sent_total st' = replies_sent_total ?st1 + 1"
        and b: "replies_sent_total ?st1 < total_cap cfg" by simp_all
      have "remaining_work cfg st' \<le> 2 * (total_cap cfg - replies_sent_total st') + 1"
        by (simp add: remaining_work_def)
      moreover have "2 * (total_cap cfg - replies_sent_total ?st1) \<le> remaining_work cfg ?st1"
        by (simp add: remaining_work_def)
      moreover have "2 * (total_cap cfg - replies_sent_total st') + 1
          < 2 * (total_cap cfg - replies_sent_total ?st1)"
        using a b by linarith
      ultimately have "remaining_work cfg st' < remaining_work cfg ?st1"
        by linarith
      with rw1 show ?thesis by simp
    qed
  qed
  show ?thesis
    by (relation "measure (\<lambda>(e, cfg, acct, session_end, st, w). remaining_work cfg st)")
       (auto dest: decreases [OF sym])
qed

declare session_loop.simps [simp del]

text \<open>
  The session: the loop variables are initialised (lines 197-201, 330) and the loop is
  run. The orchestrator has loaded \<open>processed_action_keys\<close> from the store when it was
  constructed (line 41).
\<close>

definition run_home_timeline_replies ::
  "'w env \<Rightarrow> pacing_config \<Rightarrow> account \<Rightarrow> string set \<Rightarrow> (string \<times> int) list \<Rightarrow> 'w
     \<Rightarrow> py_error option \<times> sched \<times> 'w" where
  "run_home_timeline_replies e cfg acct keys entries w =
     (case clock e w of
        (session_start, w1) \<Rightarrow>
          (case clock e (build_style_context e w1) of
             (started, w2) \<Rightarrow>
               session_loop e cfg acct (session_start + timedelta_hours (max_hours cfg))
                 \<lparr>replies_sent_total = 0, replies_this_hour = 0,
                  current_hour_start = session_start, next_reply_earliest = started,
                  processed_action_keys = keys, store = entries, publish_log = []\<rparr>
                 w2))"

definition start_session ::
  "'w env \<Rightarrow> pacing_config \<Rightarrow> account \<Rightarrow> (string \<times> int) list \<Rightarrow> 'w \<Rightarrow> py_error option \<times> sched \<times> 'w" where
  "start_session e cfg acct entries w =
     run_home_timeline_replies e cfg acct (load_processed_action_keys entries) entries w"

text \<open>The key and the outcome of an entry of the publish log.\<close>

definition entry_key :: "int \<times> string \<times> bool \<Rightarrow> string" where
  "entry_key x = fst (snd x)"

definition entry_success :: "int \<times> string \<times> bool \<Rightarrow> bool" where
  "entry_success x = snd (snd x)"


text \<open>After a successful action on a key, a later publisher call is never on that key.\<close>

definition never_again :: "int \<times> string \<times> bool \<Rightarrow> int \<times> string \<times> bool \<Rightarrow> bool" where
  "never_again x y \<longleftrightarrow> (entry_success x \<longrightarrow> entry_key y \<noteq> entry_key x)"

text \<open>
  The dedup invariant of a session that started with the key set \<open>K0\<close>: the keys never
  leave the in-memory set, no publisher call was on a key of \<open>K0\<close>, the key of every
  successful call is in the in-memory set and in the store, and no call followed a
  successful call on the same key.
\<close>

definition dedup_inv :: "string set \<Rightarrow> sched \<Rightarrow> bool" where
  "dedup_inv K0 st \<longleftrightarrow>
     K0 \<subseteq> processed_action_keys st \<and>
     (\<forall>x\<in>set (publish_log st). entry_key x \<notin> K0) \<and>
     (\<forall>x\<in>set (publish_log st). entry_success x \<longrightarrow>
        entry_key x \<in> processed_action_keys st \<and>
        entry_key x \<in> load_processed_action_keys (store st)) \<and>
     sorted_wrt never_again (publish_log st)"


text \<open>
  A predicate on the loop variables is an invariant of the session when handling one
  candidate below the caps preserves it and the updates of the pacing and hour-window
  variables preserve it.
\<close>

definition session_invariant ::
  "'w env \<Rightarrow> pacing_config \<Rightarrow> account \<Rightarrow> (sched \<Rightarrow> bool) \<Rightarrow> bool" where
  "session_invariant e cfg acct P \<longleftrightarrow>
     (\<forall>c st w out st' w'.
        P st \<and> replies_this_hour st < replies_per_hour cfg \<and>
        replies_sent_total st < total_cap cfg \<and>
        process_candidate e cfg acct c st w = (out, st', w') \<longrightarrow> P st') \<and>
     (\<forall>st a. P st \<longrightarrow> P (st\<lparr>current_hour_start := a, replies_this_hour := 0\<rparr>)) \<and>
     (\<forall>st b. P st \<and> next_reply_earliest st \<le> b \<longrightarrow> P (st\<lparr>next_reply_earliest := b\<rparr>))"

text \<open>
  A small world for examples: the clock advances one second at each reading, the
  timeline always shows the same two tweets, the service always answers an on-topic
  reply, and the publisher always succeeds.
\<close>

definition demo_clock :: "nat \<Rightarrow> int \<times> nat" where
  "demo_clock w = (int w * 1000000, Suc w)"

definition demo_sleep :: "real \<Rightarrow> nat \<Rightarrow> nat" where
  "demo_sleep seconds w = w"

definition demo_timeline :: "nat \<Rightarrow> nat \<Rightarrow> (py_error + scraped_tweet list) \<times> nat" where
  "demo_timeline batch_limit w =
     (Inr [tweet_with_text ''1'' ''alice'' ''AI launch today'',
           tweet_with_text ''2'' ''bob'' ''New robotics demo''], w)"

definition demo_llm :: "nat llm_service" where
  "demo_llm w feedback = (Inr (structured_reply ''Great news, congrats!'' True ''On topic'' []), w)"

definition demo_publisher :: "scraped_tweet \<Rightarrow> string \<Rightarrow> nat \<Rightarrow> (py_error + bool) \<times> nat" where
  "demo_publisher candidate reply w = (Inr True, w)"

definition demo_uniform :: "real \<Rightarrow> real \<Rightarrow> nat \<Rightarrow> real \<times> nat" where
  "demo_uniform lo hi w = (lo, w)"

definition demo_style :: "nat \<Rightarrow> nat" where
  "demo_style w = w"

definition demo_env :: "nat env" where
  "demo_env =
     \<lparr>clock = demo_clock, sleep = demo_sleep, scrape_home_timeline = demo_timeline,
      llm = demo_llm, reply_to_tweet = demo_publisher, uniform = demo_uniform,
      build_style_context = demo_style\<rparr>"

definition demo_cfg :: pacing_config where
  "demo_cfg =
     \<lparr>home_timeline_replies_per_hour = None, home_timeline_max_hours = None,
      min_delay_between_actions_seconds = 10, max_delay_between_actions_seconds = 20\<rparr>"

definition demo_account :: account where
  "demo_account = \<lparr>account_id = ''acct'', self_handles = [], logged_in_handle = None\<rparr>"











section \<open>Properties of the guarded reply loop\<close>

lemma length_rstrip_le: "length (rstrip s) \<le> length s"
  unfolding rstrip_def by (metis length_dropWhile_le length_rev)

lemma check_attempt_accepted:
  assumes "check_attempt ctx data err = Inr (Accepted t r tp)"
  shows "length t \<le> MAX_REPLY_CHARS \<and> t \<noteq> []"
proof -
  have "length (rstrip (take MAX_REPLY_CHARS s)) \<le> MAX_REPLY_CHARS" for s
    using length_rstrip_le [of "take MAX_REPLY_CHARS s"] by simp
  then show ?thesis
    using assms unfolding check_attempt_def Let_def
    by (auto split: pyval.splits if_splits sum.splits)
qed

text \<open>
  The invariant of the loop, for a pass entered with as many logged calls as passes
  done: the log grows by at least one call when a pass remains and never beyond the
  bound, the attempts field of a returned metadata is the length of the log, and an
  accepted text is non-empty and within the character limit.
\<close>

lemma guard_loop_inv:
  "guard_loop svc ctx m a le w = (res, w') \<Longrightarrow> length (calls w) = a \<Longrightarrow>
     a \<le> length (calls w') \<and> length (calls w') \<le> max a m \<and>
     (a < m \<longrightarrow> a < length (calls w')) \<and>
     (\<forall>r md. res = Inr (r, md) \<longrightarrow>
        attempts md = length (calls w') \<and>
        (\<forall>t. r = Some t \<longrightarrow> length t \<le> MAX_REPLY_CHARS \<and> t \<noteq> []))"
proof (induction svc ctx m a le w rule: guard_loop.induct)
  case (1 svc ctx m a le w)
  show ?case
  proof (cases "a < m")
    case False
    with "1.prems" show ?thesis
      by (auto simp: guard_loop.simps [of svc ctx m a le w])
  next
    case True
    obtain out w1 where c: "call_generate_structured svc w (if 0 < a then le else None) = (out, w1)"
      by (cases "call_generate_structured svc w (if 0 < a then le else None)")
    have len1: "length (calls w1) = a + 1"
      using c "1.prems"(2) by (auto simp: call_generate_structured_def split: prod.splits)
    show ?thesis
    proof (cases out)
      case (Inl e)
      with True c "1.prems" len1 show ?thesis
        by (auto simp: guard_loop.simps [of svc ctx m a le w])
    next
      case (Inr p)
      obtain data err where p: "p = (data, err)" by (cases p)
      show ?thesis
      proof (cases "check_attempt ctx data err")
        case (Inl e)
        with True c Inr p "1.prems" len1 show ?thesis
          by (auto simp: guard_loop.simps [of svc ctx m a le w])
      next
        case v: (Inr v)
        show ?thesis
        proof (cases v)
          case (Accepted t rr tp)
          with True c Inr p v "1.prems" len1 check_attempt_accepted [of ctx data err t rr tp]
          show ?thesis
            by (auto simp: guard_loop.simps [of svc ctx m a le w])
        next
          case (Rejected msg)
          have rec: "guard_loop svc ctx m (a + 1) (Some msg) w1 = (res, w')"
            using True c Inr p v Rejected "1.prems"(1)
            by (simp add: guard_loop.simps [of svc ctx m a le w])
          from "1.IH" [OF True c [symmetric] Inr p [symmetric] v Rejected rec len1]
          show ?thesis using True by auto
        qed
      qed
    qed
  qed
qed

lemma generate_guarded_reply_inv:
  assumes "generate_guarded_reply svc tweet retry_limit s0 = (res, w)"
  shows "1 \<le> length (calls w) \<and> int (length (calls w)) \<le> max 1 retry_limit \<and>
         (\<forall>r md. res = Inr (r, md) \<longrightarrow>
            attempts md = length (calls w) \<and>
            (\<forall>t. r = Some t \<longrightarrow> length t \<le> MAX_REPLY_CHARS \<and> t \<noteq> []))"
proof -
  have "length (calls \<lparr>service_state = s0, calls = []\<rparr>) = 0" by simp
  from guard_loop_inv [OF assms [unfolded generate_guarded_reply_def] this]
  have inv: "0 < length (calls w)" "length (calls w) \<le> max 0 (nat (max 1 retry_limit))"
    "\<forall>r md. res = Inr (r, md) \<longrightarrow>
            attempts md = length (calls w) \<and>
            (\<forall>t. r = Some t \<longrightarrow> length t \<le> MAX_REPLY_CHARS \<and> t \<noteq> [])"
    by simp_all
  from inv(1) have "1 \<le> length (calls w)" by linarith
  moreover from inv(2) have "int (length (calls w)) \<le> max 1 retry_limit" by simp
  ultimately show ?thesis using inv(3) by blast
qed

text \<open>
  C2. Whenever \<open>generate_guarded_reply\<close> returns an accepted reply text, that text has
  at most 270 characters.
\<close>

theorem accepted_reply_within_limit:
  assumes "generate_guarded_reply svc tweet retry_limit s0 = (Inr (Some reply_text, md), w)"
  shows "length reply_text \<le> 270"
  using generate_guarded_reply_inv [OF assms] by (simp add: MAX_REPLY_CHARS_def)

theorem accepted_reply_within_limit_witness:
  "generate_guarded_reply stub_service (tweet_with_text ''1'' ''techmaker'' ''AI launch today'') 2
     [structured_reply ''Congrats on the AI launch!'' True ''Mentions the announcement''
        [''ai'', ''launch'']]
   = (Inr (Some ''Congrats on the AI launch!'',
           \<lparr>relevance_reason = ''Mentions the announcement'',
            referenced_topics = PList [PStr ''ai'', PStr ''launch''],
            attempts = 1, flagged_terms = []\<rparr>),
      \<lparr>service_state = [], calls = [None]\<rparr>)
   \<and> length ''Congrats on the AI launch!'' \<le> 270"
proof -
  have run: "generate_guarded_reply stub_service
       (tweet_with_text ''1'' ''techmaker'' ''AI launch today'') 2
       [structured_reply ''Congrats on the AI launch!'' True ''Mentions the announcement''
          [''ai'', ''launch'']]
     = (Inr (Some ''Congrats on the AI launch!'',
             \<lparr>relevance_reason = ''Mentions the announcement'',
              referenced_topics = PList [PStr ''ai'', PStr ''launch''],
              attempts = 1, flagged_terms = []\<rparr>),
        \<lparr>service_state = [], calls = [None]\<rparr>)"
    by code_simp
  from accepted_reply_within_limit [OF run] run show ?thesis by simp
qed

text \<open>
  C1, as stated, fails for a retry limit below one: with \<open>retry_limit = 0\<close> the loop
  still makes one call and reports one attempt.
\<close>

theorem attempts_exceed_retry_limit_zero:
  "generate_guarded_reply stub_service
     (tweet_with_text ''77'' ''roboticist'' ''Thoughts on new robotics demo'') 0 []
   = (Inr (None, \<lparr>relevance_reason = ''no-response'', referenced_topics = PList [],
                  attempts = 1, flagged_terms = []\<rparr>),
      \<lparr>service_state = [], calls = [None]\<rparr>)
   \<and> \<not> int (attempts (snd (projr (fst (generate_guarded_reply stub_service
         (tweet_with_text ''77'' ''roboticist'' ''Thoughts on new robotics demo'') 0 []))))) \<le> 0"
  by code_simp

text \<open>
  C1, amended. In the metadata that \<open>generate_guarded_reply\<close> returns, \<open>attempts\<close> is
  the number of \<open>generate_structured\<close> calls made during the invocation, and it never
  exceeds \<open>max(1, retry_limit)\<close>.
\<close>

theorem attempts_equal_calls_made:
  assumes "generate_guarded_reply svc tweet retry_limit s0 = (Inr (r, md), w)"
  shows "attempts md = length (calls w) \<and> int (attempts md) \<le> max 1 retry_limit"
  using generate_guarded_reply_inv [OF assms] by simp

theorem attempts_equal_calls_made_witness:
  "generate_guarded_reply stub_service
     (tweet_with_text ''42'' ''mlresearcher'' ''Discussing distributed AI training'') 3
     [structured_reply ''You should read the OpenAI API docs instead.'' True ''Mentions AI APIs''
        [''api''],
      structured_reply ''Distributed training is so compute hungry - great points!'' True
        ''References distributed training'' [''training'']]
   = (Inr (Some ''Distributed training is so compute hungry - great points!'',
           \<lparr>relevance_reason = ''References distributed training'',
            referenced_topics = PList [PStr ''training''], attempts = 2, flagged_terms = []\<rparr>),
      \<lparr>service_state = [],
       calls = [None, Some ''Reply referenced off-topic terms: openai.'']\<rparr>)
   \<and> (2::nat) = length [None, Some ''Reply referenced off-topic terms: openai.'']
   \<and> int 2 \<le> max 1 3"
proof -
  have run: "generate_guarded_reply stub_service
       (tweet_with_text ''42'' ''mlresearcher'' ''Discussing distributed AI training'') 3
       [structured_reply ''You should read the OpenAI API docs instead.'' True ''Mentions AI APIs''
          [''api''],
        structured_reply ''Distributed training is so compute hungry - great points!'' True
          ''References distributed training'' [''training'']]
     = (Inr (Some ''Distributed training is so compute hungry - great points!'',
             \<lparr>relevance_reason = ''References distributed training'',
              referenced_topics = PList [PStr ''training''], attempts = 2, flagged_terms = []\<rparr>),
        \<lparr>service_state = [],
         calls = [None, Some ''Reply referenced off-topic terms: openai.'']\<rparr>)"
    by code_simp
  from attempts_equal_calls_made [OF run] run show ?thesis by simp
qed

text \<open>
  C10. For a retry limit of zero or below, \<open>generate_guarded_reply\<close> still makes
  exactly one generation call, whatever the service answers; and for every retry limit
  the \<open>attempts\<close> field of the returned metadata is at least 1 (exactly 1 when the limit
  is zero or below).
\<close>

theorem nonpositive_retry_limit_single_attempt:
  assumes "generate_guarded_reply svc tweet retry_limit s0 = (res, w)"
  shows "(retry_limit \<le> 0 \<longrightarrow> length (calls w) = 1) \<and>
         (\<forall>r md. res = Inr (r, md) \<longrightarrow>
            1 \<le> attempts md \<and> (retry_limit \<le> 0 \<longrightarrow> attempts md = 1))"
proof -
  from generate_guarded_reply_inv [OF assms]
  have lo: "1 \<le> length (calls w)"
    and hi: "int (length (calls w)) \<le> max 1 retry_limit"
    and md: "\<forall>r md. res = Inr (r, md) \<longrightarrow> attempts md = length (calls w)"
    by blast+
  have one: "length (calls w) = 1" if "retry_limit \<le> 0"
    using that lo hi by linarith
  show ?thesis using lo one md by auto
qed

theorem nonpositive_retry_limit_single_attempt_witness:
  "(-3::int) \<le> 0 \<and>
   generate_guarded_reply stub_service
     (tweet_with_text ''77'' ''roboticist'' ''Thoughts on new robotics demo'') (-3)
     [structured_reply [] False ''Could not form reply'' []]
   = (Inr (None, \<lparr>relevance_reason = ''No reply text returned.'', referenced_topics = PList [],
                  attempts = 1, flagged_terms = []\<rparr>),
      \<lparr>service_state = [], calls = [None]\<rparr>)
   \<and> length [None :: string option] = 1
   \<and> (1::nat) \<le> 1"
proof -
  have run: "generate_guarded_reply stub_service
       (tweet_with_text ''77'' ''roboticist'' ''Thoughts on new robotics demo'') (-3)
       [structured_reply [] False ''Could not form reply'' []]
     = (Inr (None, \<lparr>relevance_reason = ''No reply text returned.'', referenced_topics = PList [],
                    attempts = 1, flagged_terms = []\<rparr>),
        \<lparr>service_state = [], calls = [None]\<rparr>)"
    by code_simp
  from nonpositive_retry_limit_single_attempt [OF run] run show ?thesis by simp
qed

section \<open>Properties of the action decision\<close>

text \<open>
  C7. With the decision logic enabled, the fallback is entered when the structured
  analysis gives no recommendation, or gives one that is none of the four actions while
  its relevance reaches the repost threshold. The sentiment is what \<open>classify_sentiment\<close>
  answers when sentiment is in use, and \<open>neutral\<close> when it is not in use or the
  classifier raises. The returned action is \<open>quote_tweet\<close> if the scored relevance
  reaches the quote threshold and the sentiment is positive or neutral; else \<open>retweet\<close>
  if it reaches the retweet threshold and the sentiment is positive or neutral; else
  \<open>repost\<close> if it reaches the repost threshold, whatever the sentiment; else \<open>like\<close>.
  So under any other sentiment the action is \<open>repost\<close> or \<open>like\<close>, decided by the repost
  threshold alone.
\<close>

theorem fallback_threshold_cascade:
  assumes "decision_enabled cfg acc_ac"
    and "analyze_tweet_structured an = Inr None \<or>
         (\<exists>structured_rel rec. analyze_tweet_structured an = Inr (Some (structured_rel, rec)) \<and>
            repost_min cfg acc_ac \<le> structured_rel \<and>
            rec \<notin> {''quote_tweet'', ''retweet'', ''repost'', ''like''})"
    and "score_relevance an = Inr rel"
  shows "(use_sentiment cfg acc_ac \<and> classify_sentiment an = Inr s \<longrightarrow>
            decide_competitor_action cfg acc_ac an =
              Inr (if quote_min cfg acc_ac \<le> rel \<and> (s = ''positive'' \<or> s = ''neutral'')
                   then ''quote_tweet''
                   else if retweet_min cfg acc_ac \<le> rel \<and> (s = ''positive'' \<or> s = ''neutral'')
                   then ''retweet''
                   else if repost_min cfg acc_ac \<le> rel then ''repost''
                   else ''like'')) \<and>
         (use_sentiment cfg acc_ac \<and> classify_sentiment an = Inr s \<and>
          s \<noteq> ''positive'' \<and> s \<noteq> ''neutral'' \<longrightarrow>
            decide_competitor_action cfg acc_ac an =
              Inr (if repost_min cfg acc_ac \<le> rel then ''repost'' else ''like'')) \<and>
         (\<not> use_sentiment cfg acc_ac \<or> (\<exists>e. classify_sentiment an = Inl e) \<longrightarrow>
            decide_competitor_action cfg acc_ac an =
              Inr (if quote_min cfg acc_ac \<le> rel then ''quote_tweet''
                   else if retweet_min cfg acc_ac \<le> rel then ''retweet''
                   else if repost_min cfg acc_ac \<le> rel then ''repost''
                   else ''like''))"
proof -
  from assms(1,2) have fb: "decide_competitor_action cfg acc_ac an = fallback_action cfg acc_ac an"
    by (auto simp: decide_competitor_action_def)
  have a: "fallback_action cfg acc_ac an =
              Inr (if quote_min cfg acc_ac \<le> rel \<and> (s = ''positive'' \<or> s = ''neutral'')
                   then ''quote_tweet''
                   else if retweet_min cfg acc_ac \<le> rel \<and> (s = ''positive'' \<or> s = ''neutral'')
                   then ''retweet''
                   else if repost_min cfg acc_ac \<le> rel then ''repost''
                   else ''like'')"
    if "use_sentiment cfg acc_ac" "classify_sentiment an = Inr s"
    using that assms(3) by (simp add: fallback_action_def fallback_sentiment_def Let_def)
  have b: "fallback_action cfg acc_ac an =
              Inr (if quote_min cfg acc_ac \<le> rel then ''quote_tweet''
                   else if retweet_min cfg acc_ac \<le> rel then ''retweet''
                   else if repost_min cfg acc_ac \<le> rel then ''repost''
                   else ''like'')"
    if "\<not> use_sentiment cfg acc_ac \<or> (\<exists>e. classify_sentiment an = Inl e)"
    using that assms(3) by (auto simp: fallback_action_def fallback_sentiment_def Let_def)
  show ?thesis
  proof (intro conjI impI)
    assume "use_sentiment cfg acc_ac \<and> classify_sentiment an = Inr s"
    then show "decide_competitor_action cfg acc_ac an =
              Inr (if quote_min cfg acc_ac \<le> rel \<and> (s = ''positive'' \<or> s = ''neutral'')
                   then ''quote_tweet''
                   else if retweet_min cfg acc_ac \<le> rel \<and> (s = ''positive'' \<or> s = ''neutral'')
                   then ''retweet''
                   else if repost_min cfg acc_ac \<le> rel then ''repost''
                   else ''like'')"
      using a fb by simp
  next
    assume h: "use_sentiment cfg acc_ac \<and> classify_sentiment an = Inr s \<and>
          s \<noteq> ''positive'' \<and> s \<noteq> ''neutral''"
    then have "use_sentiment cfg acc_ac" "classify_sentiment an = Inr s" by simp_all
    from a [OF this] h fb
    show "decide_competitor_action cfg acc_ac an =
              Inr (if repost_min cfg acc_ac \<le> rel then ''repost'' else ''like'')"
      by simp
  next
    assume "\<not> use_sentiment cfg acc_ac \<or> (\<exists>e. classify_sentiment an = Inl e)"
    from b [OF this] fb
    show "decide_competitor_action cfg acc_ac an =
              Inr (if quote_min cfg acc_ac \<le> rel then ''quote_tweet''
                   else if retweet_min cfg acc_ac \<le> rel then ''retweet''
                   else if repost_min cfg acc_ac \<le> rel then ''repost''
                   else ''like'')"
      by simp
  qed
qed

theorem fallback_threshold_cascade_witness:
  "decide_competitor_action default_cfg None (analyzer_scoring 0.6 ''negative'') = Inr ''repost'' \<and>
   decide_competitor_action default_cfg None (analyzer_scoring 0.8 ''positive'') = Inr ''quote_tweet'' \<and>
   decide_competitor_action default_cfg None (analyzer_unclassified 0.6) = Inr ''retweet'' \<and>
   decide_competitor_action no_sentiment_cfg None
     (analyzer_recommending 0.9 ''reply'' 0.8 ''negative'') = Inr ''quote_tweet'' \<and>
   decide_competitor_action default_cfg None
     (analyzer_recommending 0.9 ''reply'' 0.2 ''negative'') = Inr ''like''"
proof -
  have en: "decision_enabled default_cfg None" "decision_enabled no_sentiment_cfg None"
    by (simp_all add: decision_enabled_def default_cfg_def no_sentiment_cfg_def account_or_def)
  have us: "use_sentiment default_cfg None" "\<not> use_sentiment no_sentiment_cfg None"
    by (simp_all add: use_sentiment_def default_cfg_def no_sentiment_cfg_def account_or_def)
  have thr: "quote_min default_cfg None = 0.75" "retweet_min default_cfg None = 0.5"
    "repost_min default_cfg None = 0.35"
    "quote_min no_sentiment_cfg None = 0.75" "repost_min no_sentiment_cfg None = 0.35"
    by (simp_all add: quote_min_def retweet_min_def repost_min_def default_cfg_def
        no_sentiment_cfg_def account_or_def)
  have e1: "analyze_tweet_structured (analyzer_scoring 0.6 ''negative'') = Inr None \<or>
         (\<exists>structured_rel rec. analyze_tweet_structured (analyzer_scoring 0.6 ''negative'') =
              Inr (Some (structured_rel, rec)) \<and>
            repost_min default_cfg None \<le> structured_rel \<and>
            rec \<notin> {''quote_tweet'', ''retweet'', ''repost'', ''like''})"
    by (simp add: analyzer_scoring_def)
  have e2: "analyze_tweet_structured (analyzer_scoring 0.8 ''positive'') = Inr None \<or>
         (\<exists>structured_rel rec. analyze_tweet_structured (analyzer_scoring 0.8 ''positive'') =
              Inr (Some (structured_rel, rec)) \<and>
            repost_min default_cfg None \<le> structured_rel \<and>
            rec \<notin> {''quote_tweet'', ''retweet'', ''repost'', ''like''})"
    by (simp add: analyzer_scoring_def)
  have e3: "analyze_tweet_structured (analyzer_unclassified 0.6) = Inr None \<or>
         (\<exists>structured_rel rec. analyze_tweet_structured (analyzer_unclassified 0.6) =
              Inr (Some (structured_rel, rec)) \<and>
            repost_min default_cfg None \<le> structured_rel \<and>
            rec \<notin> {''quote_tweet'', ''retweet'', ''repost'', ''like''})"
    by (simp add: analyzer_unclassified_def)
  have e4: "analyze_tweet_structured (analyzer_recommending 0.9 ''reply'' 0.8 ''negative'') = Inr None \<or>
         (\<exists>structured_rel rec. analyze_tweet_structured (analyzer_recommending 0.9 ''reply'' 0.8 ''negative'') =
              Inr (Some (structured_rel, rec)) \<and>
            repost_min no_sentiment_cfg None \<le> structured_rel \<and>
            rec \<notin> {''quote_tweet'', ''retweet'', ''repost'', ''like''})"
    by (intro disjI2 exI [of _ "9 / 10"] exI [of _ "''reply''"])
       (simp add: analyzer_recommending_def thr)
  have e5: "analyze_tweet_structured (analyzer_recommending 0.9 ''reply'' 0.2 ''negative'') = Inr None \<or>
         (\<exists>structured_rel rec. analyze_tweet_structured (analyzer_recommending 0.9 ''reply'' 0.2 ''negative'') =
              Inr (Some (structured_rel, rec)) \<and>
            repost_min default_cfg None \<le> structured_rel \<and>
            rec \<notin> {''quote_tweet'', ''retweet'', ''repost'', ''like''})"
    by (intro disjI2 exI [of _ "9 / 10"] exI [of _ "''reply''"])
       (simp add: analyzer_recommending_def thr)
  have r1: "score_relevance (analyzer_scoring 0.6 ''negative'') = Inr 0.6" "classify_sentiment (analyzer_scoring 0.6 ''negative'') = Inr ''negative''"
    by (simp_all add: analyzer_scoring_def)
  have r2: "score_relevance (analyzer_scoring 0.8 ''positive'') = Inr 0.8" "classify_sentiment (analyzer_scoring 0.8 ''positive'') = Inr ''positive''"
    by (simp_all add: analyzer_scoring_def)
  have r3: "score_relevance (analyzer_unclassified 0.6) = Inr 0.6" "\<exists>e. classify_sentiment (analyzer_unclassified 0.6) = Inl e"
    by (simp_all add: analyzer_unclassified_def)
  have r4: "score_relevance (analyzer_recommending 0.9 ''reply'' 0.8 ''negative'') = Inr 0.8"
    by (simp add: analyzer_recommending_def)
  have r5: "score_relevance (analyzer_recommending 0.9 ''reply'' 0.2 ''negative'') = Inr 0.2" "classify_sentiment (analyzer_recommending 0.9 ''reply'' 0.2 ''negative'') = Inr ''negative''"
    by (simp_all add: analyzer_recommending_def)
  from fallback_threshold_cascade [OF en(1) e1 r1(1), where s = "''negative''"] us(1) r1(2) thr
  have a: "decide_competitor_action default_cfg None (analyzer_scoring 0.6 ''negative'') = Inr ''repost''"
    by simp
  from fallback_threshold_cascade [OF en(1) e2 r2(1), where s = "''positive''"] us(1) r2(2) thr
  have b: "decide_competitor_action default_cfg None (analyzer_scoring 0.8 ''positive'') = Inr ''quote_tweet''"
    by simp
  from fallback_threshold_cascade [OF en(1) e3 r3(1), where s = "''neutral''"] r3(2) thr
  have c: "decide_competitor_action default_cfg None (analyzer_unclassified 0.6) = Inr ''retweet''"
    by simp
  from fallback_threshold_cascade [OF en(2) e4 r4, where s = "''negative''"] us(2) thr
  have d: "decide_competitor_action no_sentiment_cfg None (analyzer_recommending 0.9 ''reply'' 0.8 ''negative'') = Inr ''quote_tweet''"
    by simp
  from fallback_threshold_cascade [OF en(1) e5 r5(1), where s = "''negative''"] us(1) r5(2) thr
  have e: "decide_competitor_action default_cfg None (analyzer_recommending 0.9 ''reply'' 0.2 ''negative'') = Inr ''like''"
    by simp
  from a b c d e show ?thesis by (intro conjI)
qed

section \<open>Properties of the style context text\<close>

lemma length_u_rstrip_le: "length (u_rstrip s) \<le> length s"
  unfolding u_rstrip_def by (metis length_dropWhile_le length_rev)

lemma u_rstrip_snoc: "\<not> u_isspace c \<Longrightarrow> u_rstrip (xs @ [c]) = xs @ [c]"
  by (simp add: u_rstrip_def)

lemma u_split_no_space:
  "\<forall>c\<in>set xs. \<not> u_isspace c \<Longrightarrow> xs \<noteq> [] \<or> cur \<noteq> [] \<Longrightarrow> u_split cur xs = [rev cur @ xs]"
  by (induction xs arbitrary: cur) auto

lemma snippet_long_post: "snippet long_post = replicate 220 97"
proof -
  have "u_split [] (replicate 220 (97::nat)) = [replicate 220 97]"
    using u_split_no_space [of "replicate 220 97" "[]"] by (simp add: u_isspace_def)
  then show ?thesis by (simp add: snippet_def long_post_def)
qed

lemma timestamp_label_long_post: "timestamp_label long_post = ucs ''Unknown time''"
  by (simp add: timestamp_label_def long_post_def)

lemma decimal_digit: "n < 10 \<Longrightarrow> decimal n = [48 + n]"
  by (simp add: decimal.simps [of n])

lemma uncapped_four:
  "uncapped_context_text [long_post, long_post, long_post, long_post] =
     (ucs ''Recent personal posting snapshot:'' @ [10] @
      ucs ''1. Unknown time | '' @ replicate 220 97 @ [10] @
      ucs ''2. Unknown time | '' @ replicate 220 97 @ [10] @
      ucs ''3. Unknown time | '' @ replicate 220 97 @ [10] @
      ucs ''4. Unknown time | '') @ replicate 220 97"
  by (simp add: uncapped_context_text_def snippet_long_post timestamp_label_long_post
      decimal_digit ucs_def)



lemma capped_tail:
  assumes "length P = 769" and "\<not> u_isspace x"
  shows "length (let text = P @ replicate 220 x
                 in if 800 < length text then u_rstrip (take 800 text) @ ELLIPSIS else text) = 801"
proof -
  have "replicate 31 x = replicate (Suc 30) x" by simp
  also have "\<dots> = x # replicate 30 x" by (rule replicate_Suc)
  also have "\<dots> = replicate 30 x @ [x]" by (rule replicate_append_same [symmetric])
  finally have rep: "replicate 31 x = replicate 30 x @ [x]" .
  have "take 800 (P @ replicate 220 x) = P @ replicate 31 x"
    using assms(1) by simp
  then have t: "take 800 (P @ replicate 220 x) = (P @ replicate 30 x) @ [x]"
    unfolding rep by simp
  have r: "u_rstrip (take 800 (P @ replicate 220 x)) = (P @ replicate 30 x) @ [x]"
    unfolding t using assms(2) by (rule u_rstrip_snoc)
  show ?thesis
    unfolding Let_def r using assms(1) by (simp add: ELLIPSIS_def)
qed

lemma four_long_posts_prefix_length:
  "length (ucs ''Recent personal posting snapshot:'' @ [10] @
      ucs ''1. Unknown time | '' @ replicate 220 97 @ [10] @
      ucs ''2. Unknown time | '' @ replicate 220 97 @ [10] @
      ucs ''3. Unknown time | '' @ replicate 220 97 @ [10] @
      ucs ''4. Unknown time | '') = 769"
  by (simp add: ucs_def)

lemma four_long_posts_uncapped_length:
  "length (uncapped_context_text [long_post, long_post, long_post, long_post]) = 989"
  unfolding uncapped_four
  by (subst length_append, subst four_long_posts_prefix_length) simp

lemma four_long_posts_length:
  "length (style_context_text [long_post, long_post, long_post, long_post]) = 801"
proof -
  have ns: "\<not> u_isspace 97" by (simp add: u_isspace_def)
  show ?thesis
    unfolding style_context_text_def uncapped_four
    by (rule capped_tail [OF four_long_posts_prefix_length ns])
qed

lemma length_capped_le: "length (u_rstrip (take 800 s) @ ELLIPSIS) \<le> 801"
proof -
  have "length (u_rstrip (take 800 s)) \<le> 800"
    using length_u_rstrip_le [of "take 800 s"] by simp
  then show ?thesis by (simp add: ELLIPSIS_def)
qed

text \<open>
  C9, as stated, fails: four selected posts of 220 characters each give a text of 989
  characters, and the block returned for them has 801 characters.
\<close>

theorem style_context_text_exceeds_800:
  "length (style_context_text [long_post, long_post, long_post, long_post]) = 801 \<and>
   \<not> length (style_context_text [long_post, long_post, long_post, long_post]) \<le> 800"
  by (simp add: four_long_posts_length)

text \<open>
  C9, amended. The context block is the concatenated text itself when that has at most
  800 characters; otherwise it is the first 800 characters of it, stripped of trailing
  whitespace, followed by the one-character ellipsis. Its length is at most 801.
\<close>

theorem style_context_text_capped:
  "length (style_context_text selected) \<le> 801 \<and>
   (length (uncapped_context_text selected) \<le> 800 \<longrightarrow>
      style_context_text selected = uncapped_context_text selected) \<and>
   (800 < length (uncapped_context_text selected) \<longrightarrow>
      style_context_text selected =
        u_rstrip (take 800 (uncapped_context_text selected)) @ ELLIPSIS)"
proof (cases "800 < length (uncapped_context_text selected)")
  case True
  then have "style_context_text selected =
      u_rstrip (take 800 (uncapped_context_text selected)) @ ELLIPSIS"
    by (simp add: style_context_text_def Let_def)
  with True length_capped_le [of "uncapped_context_text selected"] show ?thesis by simp
next
  case False
  then have "style_context_text selected = uncapped_context_text selected"
    by (simp add: style_context_text_def Let_def)
  with False show ?thesis by simp
qed

theorem style_context_text_capped_witness:
  "800 < length (uncapped_context_text [long_post, long_post, long_post, long_post]) \<and>
   length (style_context_text [long_post, long_post, long_post, long_post]) \<le> 801 \<and>
   style_context_text [long_post, long_post, long_post, long_post] =
     u_rstrip (take 800 (uncapped_context_text [long_post, long_post, long_post, long_post]))
       @ ELLIPSIS"
proof -
  have long: "800 < length (uncapped_context_text [long_post, long_post, long_post, long_post])"
    by (simp add: four_long_posts_uncapped_length)
  from style_context_text_capped [of "[long_post, long_post, long_post, long_post]"] long
  show ?thesis by blast
qed

section \<open>Properties of keyword extraction\<close>

lemma counter_get_incr:
  "counter_get (counter_incr c t) u = (if u = t then counter_get c t + 1 else counter_get c u)"
  by (induction c t rule: counter_incr.induct) (auto simp: counter_get_def)

lemma keys_counter_incr:
  "map fst (counter_incr c t) = (if t \<in> set (map fst c) then map fst c else map fst c @ [t])"
  by (induction c t rule: counter_incr.induct) auto

lemma counter_get_count_token:
  "counter_get (count_token c t) u =
     counter_get c u + (if keep_token t \<and> u = t then 1 else 0)"
  by (auto simp: count_token_def keep_token_def counter_get_incr)

lemma keys_set_counter_incr: "fst ` set (counter_incr c t) = insert t (fst ` set c)"
  by (induction c t rule: counter_incr.induct) auto

lemma keys_count_token:
  "fst ` set (count_token c t) = fst ` set c \<union> (if keep_token t then {t} else {})"
  by (simp add: count_token_def keep_token_def keys_set_counter_incr)

lemma distinct_count_token:
  "distinct (map fst c) \<Longrightarrow> distinct (map fst (count_token c t))"
  by (auto simp: count_token_def keys_counter_incr)

lemma foldl_count_token:
  "counter_get (foldl count_token c ts) u =
     counter_get c u + (if keep_token u then count_list ts u else 0)"
  by (induction ts arbitrary: c) (auto simp: counter_get_count_token)

lemma keys_foldl_count_token:
  "fst ` set (foldl count_token c ts) = fst ` set c \<union> {t \<in> set ts. keep_token t}"
proof (induction ts arbitrary: c)
  case Nil
  show ?case by simp
next
  case (Cons a ts)
  show ?case
    unfolding foldl_Cons Cons.IH keys_count_token by auto
qed

lemma distinct_foldl_count_token:
  "distinct (map fst c) \<Longrightarrow> distinct (map fst (foldl count_token c ts))"
  by (induction ts arbitrary: c) (auto simp: distinct_count_token)

lemma foldl_count_text:
  "foldl count_text c texts = foldl count_token c (all_tokens texts)"
  by (induction texts arbitrary: c) (auto simp: count_text_def all_tokens_def)

lemma counter_distinct: "distinct (map fst (foldl count_text [] texts))"
  by (simp add: foldl_count_text distinct_foldl_count_token)

lemma counter_keys:
  "fst ` set (foldl count_text [] texts) = {t \<in> set (all_tokens texts). keep_token t}"
  by (simp add: foldl_count_text keys_foldl_count_token)

lemma counter_frequency:
  "counter_get (foldl count_text [] texts) t = (if keep_token t then frequency texts t else 0)"
proof -
  have "counter_get [] t = 0" by (simp add: counter_get_def)
  then show ?thesis
    using foldl_count_token [of "[]" "all_tokens texts" t]
    by (simp add: foldl_count_text frequency_def)
qed

lemma counter_entry:
  assumes "(t, n) \<in> set (foldl count_text [] texts)"
  shows "n = frequency texts t \<and> keep_token t"
proof -
  have "map_of (foldl count_text [] texts) t = Some n"
    using assms counter_distinct by simp
  then have "counter_get (foldl count_text [] texts) t = n"
    by (simp add: counter_get_def)
  moreover have "keep_token t"
    using assms counter_keys [of texts] by force
  ultimately show ?thesis by (simp add: counter_frequency)
qed

lemma keyword_key_less:
  assumes "keep_token a" and "keep_token b"
  shows "keyword_key (foldl count_text [] texts) b < keyword_key (foldl count_text [] texts) a
           \<longleftrightarrow> ranks_before texts a b"
  using assms by (auto simp: keyword_key_def counter_frequency ranks_before_def less_prod_def)

lemma set_sorted_reverse: "set (sorted_reverse k xs) = set xs"
  by (simp add: sorted_reverse_def)

lemma distinct_sorted_reverse: "distinct (sorted_reverse k xs) = distinct xs"
  by (simp add: sorted_reverse_def)

lemma length_sorted_reverse: "length (sorted_reverse k xs) = length xs"
  by (simp add: sorted_reverse_def)

lemma sorted_reverse_descending:
  assumes "distinct xs" and "inj_on k (set xs)"
  shows "sorted_wrt (\<lambda>a b. k b < k a) (sorted_reverse k xs)"
proof -
  let ?s = "sort_key k (rev xs)"
  have "sorted (map k ?s)" by (rule sorted_sort_key)
  moreover have "distinct (map k ?s)"
    using assms by (simp add: distinct_map)
  ultimately have "sorted_wrt (<) (map k ?s)"
    by (simp add: strict_sorted_iff)
  then have "sorted_wrt (\<lambda>a b. k a < k b) ?s"
    by (simp add: sorted_wrt_map)
  then show ?thesis
    by (simp add: sorted_reverse_def sorted_wrt_rev)
qed

lemma py_take_is_take: "\<exists>k. py_take n xs = take k xs \<and> (0 \<le> n \<longrightarrow> k = nat n)"
  by (auto simp: py_take_def)

lemma filtered_candidates:
  fixes texts m
  defines "c \<equiv> foldl count_text [] texts"
  defines "filtered0 \<equiv> map fst (filter (\<lambda>(token, count). m \<le> int count) c)"
  defines "filtered \<equiv> (if filtered0 = [] then map fst c else filtered0)"
  shows "distinct filtered \<and> set filtered = keyword_candidates texts m"
proof -
  have d: "distinct (map fst c)" unfolding c_def by (rule counter_distinct)
  have kept: "set (map fst c) = {t \<in> set (all_tokens texts). keep_token t}"
    unfolding c_def using counter_keys [of texts] by simp
  have s0: "set filtered0 =
      {t \<in> {t \<in> set (all_tokens texts). keep_token t}. m \<le> int (frequency texts t)}"
  proof (rule set_eqI)
    fix t
    show "t \<in> set filtered0 \<longleftrightarrow>
        t \<in> {t \<in> {t \<in> set (all_tokens texts). keep_token t}. m \<le> int (frequency texts t)}"
    proof
      assume "t \<in> set filtered0"
      then obtain n where tn: "(t, n) \<in> set c" and mn: "m \<le> int n"
        unfolding filtered0_def by auto
      from counter_entry [OF tn [unfolded c_def]] have "n = frequency texts t" "keep_token t"
        by simp_all
      moreover have "t \<in> set (all_tokens texts)"
        using tn kept by force
      ultimately show "t \<in> {t \<in> {t \<in> set (all_tokens texts). keep_token t}. m \<le> int (frequency texts t)}"
        using mn by simp
    next
      assume a: "t \<in> {t \<in> {t \<in> set (all_tokens texts). keep_token t}. m \<le> int (frequency texts t)}"
      then have "t \<in> set (map fst c)" using kept by simp
      then obtain n where tn: "(t, n) \<in> set c" by auto
      from counter_entry [OF tn [unfolded c_def]] have "n = frequency texts t" by simp
      with a tn show "t \<in> set filtered0"
        unfolding filtered0_def by force
    qed
  qed
  have d0: "distinct filtered0"
    unfolding filtered0_def using d by (rule distinct_map_filter)
  have e0: "filtered0 = [] \<longleftrightarrow> set filtered0 = {}" by simp
  show ?thesis
    unfolding filtered_def keyword_candidates_def Let_def e0 s0 [symmetric]
    using d d0 kept s0 by auto
qed

lemma candidates_kept: "t \<in> keyword_candidates texts m \<Longrightarrow> keep_token t"
  by (auto simp: keyword_candidates_def Let_def split: if_splits)

lemma extract_keywords_prefix:
  "\<exists>r k. distinct r \<and> set r = keyword_candidates texts m \<and>
         sorted_wrt (ranks_before texts) r \<and>
         extract_keywords_from_texts texts n m = take k r \<and> (0 \<le> n \<longrightarrow> k = nat n)"
proof (cases "foldl count_text [] texts = []")
  case True
  then have "fst ` set (foldl count_text [] texts) = {}" by simp
  then have "{t \<in> set (all_tokens texts). keep_token t} = {}"
    unfolding counter_keys .
  then have "keyword_candidates texts m = {}"
    by (auto simp: keyword_candidates_def Let_def)
  moreover have "extract_keywords_from_texts texts n m = []"
    using True by (simp add: extract_keywords_from_texts_def)
  ultimately have "distinct ([]::string list) \<and> set [] = keyword_candidates texts m \<and>
         sorted_wrt (ranks_before texts) [] \<and>
         extract_keywords_from_texts texts n m = take (nat n) [] \<and> (0 \<le> n \<longrightarrow> nat n = nat n)"
    by simp
  then show ?thesis by blast
next
  case False
  let ?c = "foldl count_text [] texts"
  let ?f0 = "map fst (filter (\<lambda>(token, count). m \<le> int count) ?c)"
  let ?f = "if ?f0 = [] then map fst ?c else ?f0"
  let ?r = "sorted_reverse (keyword_key ?c) ?f"
  from filtered_candidates [of m texts]
  have df: "distinct ?f" and sf: "set ?f = keyword_candidates texts m" by blast+
  have inj: "inj_on (keyword_key ?c) (set ?f)"
    by (rule inj_onI) (simp add: keyword_key_def)
  have "sorted_wrt (\<lambda>a b. keyword_key ?c b < keyword_key ?c a) ?r"
    using df inj by (rule sorted_reverse_descending)
  moreover have "\<forall>a\<in>set ?r. keep_token a"
    unfolding set_sorted_reverse sf using candidates_kept by blast
  ultimately have srt: "sorted_wrt (ranks_before texts) ?r"
    by (elim sorted_wrt_mono_rel [rotated]) (simp add: keyword_key_less)
  have ex: "extract_keywords_from_texts texts n m = py_take n ?r"
    using False by (simp add: extract_keywords_from_texts_def Let_def)
  obtain k where k: "py_take n ?r = take k ?r" "0 \<le> n \<longrightarrow> k = nat n"
    using py_take_is_take [of n ?r] by blast
  have "distinct ?r \<and> set ?r = keyword_candidates texts m \<and>
         sorted_wrt (ranks_before texts) ?r \<and>
         extract_keywords_from_texts texts n m = take k ?r \<and> (0 \<le> n \<longrightarrow> k = nat n)"
    using df sf srt ex k by (simp add: distinct_sorted_reverse set_sorted_reverse)
  then show ?thesis by blast
qed

text \<open>
  C8, as stated, fails on the tie-break: of two tokens with the same frequency the
  shorter one comes first, and of two with the same frequency and length the one
  later in lexicographic order comes first.
\<close>

theorem shorter_token_wins_tie:
  "frequency [''abcd abc''] ''abcd'' = frequency [''abcd abc''] ''abc'' \<and>
   extract_keywords_from_texts [''abcd abc''] 8 1 = [''abc'', ''abcd''] \<and>
   extract_keywords_from_texts [''abcd abc''] 1 1 = [''abc''] \<and>
   extract_keywords_from_texts [''abc abd''] 8 1 = [''abd'', ''abc'']"
  by code_simp

text \<open>
  C8, amended. Keyword extraction returns distinct candidates (tokens of more than two
  characters that are not stopwords, restricted to those reaching the minimum
  frequency when any does), in rank order, and every candidate it leaves out ranks
  after every keyword it returns; for a non-negative \<open>max_keywords\<close> it returns that
  many keywords, or all candidates when there are fewer. The rank order is: higher
  frequency first; on equal frequency the shorter token first; on equal frequency and
  length the token later in lexicographic order first.
\<close>

theorem keywords_ranked:
  "distinct (extract_keywords_from_texts texts n m) \<and>
   set (extract_keywords_from_texts texts n m) \<subseteq> keyword_candidates texts m \<and>
   sorted_wrt (ranks_before texts) (extract_keywords_from_texts texts n m) \<and>
   (\<forall>k\<in>set (extract_keywords_from_texts texts n m).
      \<forall>t\<in>keyword_candidates texts m - set (extract_keywords_from_texts texts n m).
        ranks_before texts k t) \<and>
   (0 \<le> n \<longrightarrow>
      length (extract_keywords_from_texts texts n m) =
        min (nat n) (card (keyword_candidates texts m)))"
proof -
  obtain r k where r: "distinct r" "set r = keyword_candidates texts m"
      "sorted_wrt (ranks_before texts) r"
      "extract_keywords_from_texts texts n m = take k r" "0 \<le> n \<longrightarrow> k = nat n"
    using extract_keywords_prefix [of texts m n] by blast
  have split: "r = take k r @ drop k r" by simp
  have d: "distinct (take k r)" using r(1) by simp
  have sub: "set (take k r) \<subseteq> keyword_candidates texts m"
    using set_take_subset [of k r] r(2) by simp
  have srt: "sorted_wrt (ranks_before texts) (take k r)"
    using r(3) by (rule sorted_wrt_take)
  have "sorted_wrt (ranks_before texts) (take k r @ drop k r)" using r(3) by simp
  then have cross: "\<forall>x\<in>set (take k r). \<forall>y\<in>set (drop k r). ranks_before texts x y"
    unfolding sorted_wrt_append by blast
  have "set r = set (take k r) \<union> set (drop k r)"
    by (metis split set_append)
  then have rest: "keyword_candidates texts m - set (take k r) \<subseteq> set (drop k r)"
    using r(2) by auto
  have top: "\<forall>x\<in>set (take k r). \<forall>t\<in>keyword_candidates texts m - set (take k r).
      ranks_before texts x t"
    using cross rest by blast
  have len: "0 \<le> n \<longrightarrow> length (take k r) = min (nat n) (card (keyword_candidates texts m))"
    using r(1,2,5) distinct_card [of r] by auto
  show ?thesis
    unfolding r(4) using d sub srt top len by blast
qed

theorem keywords_ranked_witness:
  "extract_keywords_from_texts [''abcd abc abd abcde abcde''] 3 1 = [''abcde'', ''abd'', ''abc''] \<and>
   ''abcd'' \<in> keyword_candidates [''abcd abc abd abcde abcde''] 1 - set [''abcde'', ''abd'', ''abc''] \<and>
   ranks_before [''abcd abc abd abcde abcde''] ''abd'' ''abcd'' \<and>
   sorted_wrt (ranks_before [''abcd abc abd abcde abcde'']) [''abcde'', ''abd'', ''abc''] \<and>
   (0::int) \<le> 3"
proof -
  have e: "extract_keywords_from_texts [''abcd abc abd abcde abcde''] 3 1 = [''abcde'', ''abd'', ''abc'']"
    by code_simp
  have c: "''abcd'' \<in> keyword_candidates [''abcd abc abd abcde abcde''] 1 - set [''abcde'', ''abd'', ''abc'']"
    by code_simp
  have k: "''abd'' \<in> set [''abcde'', ''abd'', ''abc'']" by simp
  from keywords_ranked [of "[''abcd abc abd abcde abcde'']" 3 1]
  have srt: "sorted_wrt (ranks_before [''abcd abc abd abcde abcde'']) [''abcde'', ''abd'', ''abc'']"
    and top: "\<forall>k\<in>set [''abcde'', ''abd'', ''abc''].
      \<forall>t\<in>keyword_candidates [''abcd abc abd abcde abcde''] 1 - set [''abcde'', ''abd'', ''abc''].
        ranks_before [''abcd abc abd abcde abcde''] k t"
    unfolding e by blast+
  from top k c have "ranks_before [''abcd abc abd abcde abcde''] ''abd'' ''abcd''"
    by blast
  with e c srt show ?thesis by simp
qed

section \<open>Properties of the off-topic filter\<close>

text \<open>
  What the filter does: a term of the default list is flagged exactly when it occurs in
  the lowercased reply and is neither a lowercased allowed term nor a token of the
  tweet text.
\<close>

lemma flagged_iff:
  "term \<in> set (find_off_topic_terms reply_text tweet_text allowed_terms) \<longleftrightarrow>
     term \<in> set DEFAULT_OFF_TOPIC_TERMS \<and> py_in term (lower reply_text) \<and>
     term \<notin> lower ` set allowed_terms \<and> term \<notin> tokenize_for_overlap tweet_text"
  by (auto simp: find_off_topic_terms_def Let_def)

text \<open>
  C3. A default term present in the tweet text must never cause rejection. The code
  licenses a term only when it is one whole token of the tweet text or a keyword, and a
  term of two words is never a token: the tweet below mentions \<open>pull request\<close>
  verbatim, the reply echoes it, and the reply is rejected for that term.
\<close>

theorem multiword_term_of_tweet_rejected:
  "py_in ''pull request'' ''Please review my pull request'' \<and>
   ''pull request'' \<in> set DEFAULT_OFF_TOPIC_TERMS \<and>
   find_off_topic_terms ''Happy to review your pull request'' ''Please review my pull request''
     (ctx_keywords (prepare_tweet_context
        (tweet_with_text ''7'' ''dev'' ''Please review my pull request'')))
     = [''pull request''] \<and>
   generate_guarded_reply stub_service
     (tweet_with_text ''7'' ''dev'' ''Please review my pull request'') 1
     [structured_reply ''Happy to review your pull request'' True ''Replies to the review request''
        [''review'']]
   = (Inr (None, \<lparr>relevance_reason = ''Reply referenced off-topic terms: pull request.'',
                  referenced_topics = PList [], attempts = 1, flagged_terms = []\<rparr>),
      \<lparr>service_state = [], calls = [None]\<rparr>)"
  by code_simp

section \<open>Properties of the backend router\<close>

text \<open>
  The services are visited in order up to the first one that answers; a service whose
  invocation raised is followed by the next one, and \<open>None\<close> is returned only after the
  whole list.
\<close>

lemma try_services_trace:
  "try_services gen c names w = (result, trace, w') \<Longrightarrow>
     (result = None \<longrightarrow> map fst trace = names \<and> (\<forall>x\<in>set trace. \<not> is_returned (snd x))) \<and>
     (\<forall>text. result = Some text \<longrightarrow>
        (\<exists>pre name rest. trace = pre @ [(name, Returned text)] \<and>
           names = map fst pre @ name # rest \<and> (\<forall>x\<in>set pre. \<not> is_returned (snd x))))"
proof (induction names arbitrary: w result trace w')
  case Nil
  then show ?case by simp
next
  case (Cons n names)
  obtain a w1 where a: "try_service gen c n w = (a, w1)" by (cases "try_service gen c n w")
  show ?case
  proof (cases "is_returned a")
    case True
    then obtain answer where t: "a = Returned answer" by (cases a) simp_all
    from Cons.prems a t have r: "result = Some answer" "trace = [(n, Returned answer)]"
      by simp_all
    have "trace = [] @ [(n, Returned answer)] \<and> n # names = map fst [] @ n # names \<and>
        (\<forall>x\<in>set ([] :: (string \<times> attempt) list). \<not> is_returned (snd x))"
      using r by simp
    then show ?thesis using r by blast
  next
    case False
    obtain r2 tr2 w2 where rec: "try_services gen c names w1 = (r2, tr2, w2)"
      by (cases "try_services gen c names w1")
    from Cons.prems a rec False have r: "result = r2" "trace = (n, a) # tr2"
      by (cases a; simp)+
    note ih = Cons.IH [OF rec]
    show ?thesis
    proof (intro conjI impI allI)
      assume "result = None"
      with ih r show "map fst trace = n # names" by simp
    next
      assume "result = None"
      with ih r False show "\<forall>x\<in>set trace. \<not> is_returned (snd x)" by simp
    next
      fix answer assume "result = Some answer"
      with ih r obtain pre name rest where p: "tr2 = pre @ [(name, Returned answer)]"
        "names = map fst pre @ name # rest" "\<forall>x\<in>set pre. \<not> is_returned (snd x)"
        by blast
      have "trace = ((n, a) # pre) @ [(name, Returned answer)] \<and>
          n # names = map fst ((n, a) # pre) @ name # rest \<and>
          (\<forall>x\<in>set ((n, a) # pre). \<not> is_returned (snd x))"
        using p r False by simp
      then show "\<exists>pre name rest. trace = pre @ [(name, Returned answer)] \<and>
           n # names = map fst pre @ name # rest \<and> (\<forall>x\<in>set pre. \<not> is_returned (snd x))"
        by blast
    qed
  qed
qed

text \<open>
  Two runs: the Azure client raises and the OpenAI client answers; both raise and there
  is no Gemini client.
\<close>

lemma raising_backend_falls_through:
  "generate_text fallback_generator hello_call 0 =
     (Some ''Hello there'',
      [(''azure'', Raised (ServiceError ''connection refused'')),
       (''openai'', Returned ''Hello there'')], 2)"
  by code_simp

lemma all_backends_raise:
  "generate_text failing_generator hello_call 0 =
     (None,
      [(''azure'', Raised (ServiceError ''connection refused'')),
       (''openai'', Raised (ServiceError ''connection refused'')),
       (''gemini'', NotAvailable)], 2)"
  by code_simp

text \<open>
  C6. The claim fails on a configured, available backend. The Azure client is present
  and answers, and the deployment name \<open>prod\<close> is configured; a call that passes
  \<open>model_name=None\<close> has that \<open>None\<close> renamed to \<open>model\<close> (lines 85-86), so that
  \<open>final_params.pop('model', service_config.get('deployment_name'))\<close> takes \<open>None\<close> and
  not the configured name (lines 135-140): the router goes on without invoking the
  client, as the unchanged world shows, and returns \<open>None\<close>. The same call without
  \<open>model_name\<close> invokes the client and returns its answer.
\<close>

theorem configured_azure_skipped_without_invocation:
  "generate_text azure_only_generator no_override_call 0 =
     (None,
      [(''azure'', MissingDeployment), (''openai'', NotAvailable), (''gemini'', NotAvailable)],
      0) \<and>
   generate_text azure_only_generator hello_call 0 =
     (Some ''Hello there'', [(''azure'', Returned ''Hello there'')], 1) \<and>
   azure_openai_client azure_only_generator = Some answering_client \<and>
   cfg_deployment_name (service_settings azure_only_generator ''azure'') = Some (PStr ''prod'') \<and>
   call_params no_override_call ''model_name'' = Some PNone"
proof -
  have skipped: "generate_text azure_only_generator no_override_call 0 =
     (None,
      [(''azure'', MissingDeployment), (''openai'', NotAvailable), (''gemini'', NotAvailable)],
      0)"
    by code_simp
  have answered: "generate_text azure_only_generator hello_call 0 =
     (Some ''Hello there'', [(''azure'', Returned ''Hello there'')], 1)"
    by code_simp
  have client: "azure_openai_client azure_only_generator = Some answering_client"
    by (simp add: azure_only_generator_def)
  have name: "cfg_deployment_name (service_settings azure_only_generator ''azure'') =
      Some (PStr ''prod'')"
    by (simp add: azure_only_generator_def plain_settings_def)
  have param: "call_params no_override_call ''model_name'' = Some PNone"
    by (simp add: no_override_call_def)
  from skipped answered client name param show ?thesis by (intro conjI)
qed

section \<open>Properties of the scheduler\<close>

text \<open>An invariant of the session holds after every part of the loop, and after the loop.\<close>

lemma scan_batch_preserves:
  assumes inv: "session_invariant e cfg acct P"
  shows "P st \<Longrightarrow> scan_batch e cfg acct cs st w = (made, err, st', w') \<Longrightarrow> P st'"
proof (induction cs arbitrary: st w)
  case Nil
  then show ?case by simp
next
  case (Cons c cs)
  show ?case
  proof (cases "replies_per_hour cfg \<le> replies_this_hour st \<or> total_cap cfg \<le> replies_sent_total st")
    case True
    with Cons.prems show ?thesis by auto
  next
    case False
    obtain out st1 w1 where step: "process_candidate e cfg acct c st w = (out, st1, w1)"
      by (cases "process_candidate e cfg acct c st w")
    from False have below: "replies_this_hour st < replies_per_hour cfg"
      "replies_sent_total st < total_cap cfg" by simp_all
    have p1: "P st1"
      using inv Cons.prems(1) below step unfolding session_invariant_def by blast
    show ?thesis
    proof (cases out)
      case NextCandidate
      with Cons.prems(2) False step have "scan_batch e cfg acct cs st1 w1 = (made, err, st', w')"
        by simp
      from Cons.IH [OF p1 this] show ?thesis .
    next
      case ReplyMade
      with Cons.prems(2) False step p1 show ?thesis by auto
    next
      case (Propagated x)
      with Cons.prems(2) False step p1 show ?thesis by auto
    qed
  qed
qed

lemma fetch_and_scan_preserves:
  assumes inv: "session_invariant e cfg acct P"
    and "P st" and "fetch_and_scan e cfg acct st w = (out, st', w')"
  shows "P st'"
proof -
  obtain r w1 where sc: "scrape_home_timeline e (max 40 (replies_per_hour cfg * 4)) w = (r, w1)"
    by (cases "scrape_home_timeline e (max 40 (replies_per_hour cfg * 4)) w")
  show ?thesis
  proof (cases r)
    case (Inl err)
    with assms(2,3) sc show ?thesis by (simp add: fetch_and_scan_def)
  next
    case (Inr tweets)
    show ?thesis
    proof (cases "tweets = []")
      case True
      with assms(2,3) sc Inr show ?thesis by (simp add: fetch_and_scan_def)
    next
      case False
      obtain made err st2 w2 where sb:
        "scan_batch e cfg acct (sorted_reverse score_home_timeline_tweet tweets) st w1 =
           (made, err, st2, w2)"
        by (cases "scan_batch e cfg acct (sorted_reverse score_home_timeline_tweet tweets) st w1")
      have "P st2" using scan_batch_preserves [OF inv assms(2) sb] .
      moreover have "st' = st2"
        using assms(3) sc Inr False sb
        by (auto simp: fetch_and_scan_def split: option.splits bool.splits)
      ultimately show ?thesis by simp
    qed
  qed
qed

lemma cooldown_preserves:
  assumes inv: "session_invariant e cfg acct P"
    and "P st" and "cooldown e session_end now st w = (out, st', w')"
  shows "P st'"
proof -
  have "st' = st \<or> (\<exists>a. st' = st\<lparr>current_hour_start := a, replies_this_hour := 0\<rparr>) \<or>
      (\<exists>a b. next_reply_earliest st \<le> b \<and>
         st' = (st\<lparr>next_reply_earliest := b\<rparr>)\<lparr>current_hour_start := a, replies_this_hour := 0\<rparr>)"
  proof -
    obtain t w1 where c0: "clock e w = (t, w1)" by (cases "clock e w")
    define sl where "sl = max 0 (min (total_seconds (current_hour_start st + timedelta_hours 1 - now))
                                  (total_seconds (session_end - now)))"
    obtain t1 w2 where c1: "clock e (sleep e sl w) = (t1, w2)" by (cases "clock e (sleep e sl w)")
    obtain t2 w3 where c2: "clock e w2 = (t2, w3)" by (cases "clock e w2")
    have "st' = st \<or> st' = st\<lparr>current_hour_start := t, replies_this_hour := 0\<rparr> \<or>
        st' = (st\<lparr>next_reply_earliest := max (next_reply_earliest st) t1\<rparr>)
                \<lparr>current_hour_start := t2, replies_this_hour := 0\<rparr>"
      using assms(3) c0 c1 [unfolded sl_def] c2 unfolding cooldown_def Let_def
      by (simp split: if_splits)
    moreover have "next_reply_earliest st \<le> max (next_reply_earliest st) t1" by simp
    ultimately show ?thesis by blast
  qed
  then show ?thesis
  proof (elim disjE exE conjE)
    assume "st' = st"
    with assms(2) show ?thesis by simp
  next
    fix a assume "st' = st\<lparr>current_hour_start := a, replies_this_hour := 0\<rparr>"
    with assms(2) inv show ?thesis unfolding session_invariant_def by simp
  next
    fix a b assume le: "next_reply_earliest st \<le> b"
      and eq: "st' = (st\<lparr>next_reply_earliest := b\<rparr>)\<lparr>current_hour_start := a, replies_this_hour := 0\<rparr>"
    from inv have r2: "\<And>s a. P s \<Longrightarrow> P (s\<lparr>current_hour_start := a, replies_this_hour := 0\<rparr>)"
      and r3: "\<And>s b. P s \<Longrightarrow> next_reply_earliest s \<le> b \<Longrightarrow> P (s\<lparr>next_reply_earliest := b\<rparr>)"
      unfolding session_invariant_def by simp_all
    from r3 [OF assms(2) le] have "P (st\<lparr>next_reply_earliest := b\<rparr>)" .
    from r2 [OF this] show ?thesis unfolding eq .
  qed
qed

lemma iteration_preserves:
  assumes inv: "session_invariant e cfg acct P"
    and "P st" and "iteration e cfg acct session_end st w = (out, st', w')"
  shows "P st'"
proof -
  obtain now w1 where ck: "clock e w = (now, w1)" by (cases "clock e w")
  have p1: "P (advance_hour_window now st)"
    using assms(2) inv unfolding session_invariant_def by (simp add: advance_hour_window_def)
  consider "st' = st"
    | "cooldown e session_end now (advance_hour_window now st) w1 = (out, st', w')"
    | "fetch_and_scan e cfg acct (advance_hour_window now st) w1 = (out, st', w')"
    using assms(3) ck by (auto simp: iteration_def split: if_splits)
  then show ?thesis
  proof cases
    case 1
    with assms(2) show ?thesis by simp
  next
    case 2
    from cooldown_preserves [OF inv p1 2] show ?thesis .
  next
    case 3
    from fetch_and_scan_preserves [OF inv p1 3] show ?thesis .
  qed
qed

lemma session_loop_preserves:
  "session_invariant e cfg acct P \<Longrightarrow> P st \<Longrightarrow>
     session_loop e cfg acct session_end st w = (err, st', w') \<Longrightarrow> P st'"
proof (induction e cfg acct session_end st w rule: session_loop.induct)
  case (1 e cfg acct session_end st w)
  obtain out st1 w1 where it: "iteration e cfg acct session_end st w = (out, st1, w1)"
    by (cases "iteration e cfg acct session_end st w")
  have p1: "P st1"
    using iteration_preserves [OF "1.prems"(1,2) it] .
  show ?case
  proof (cases out)
    case Continue
    with "1.prems"(3) it have "session_loop e cfg acct session_end st1 w1 = (err, st', w')"
      by (simp add: session_loop.simps [of e cfg acct session_end st w])
    from "1.IH" [OF it [symmetric] Continue refl "1.prems"(1) p1 this] show ?thesis .
  next
    case Stop
    with "1.prems"(3) it p1 show ?thesis
      by (simp add: session_loop.simps [of e cfg acct session_end st w])
  next
    case (Aborted x)
    with "1.prems"(3) it p1 show ?thesis
      by (simp add: session_loop.simps [of e cfg acct session_end st w])
  qed
qed

lemma process_candidate_effect:
  assumes "process_candidate e cfg acct c st w = (out, st', w')"
  shows "(st' = st \<and> out \<noteq> ReplyMade) \<or>
         (\<exists>t k nre. k \<notin> processed_action_keys st \<and> out \<noteq> ReplyMade \<and>
            st' = st\<lparr>next_reply_earliest := nre,
                     publish_log := publish_log st @ [(t, k, False)]\<rparr>) \<or>
         (\<exists>t k nre ts. k \<notin> processed_action_keys st \<and> out = ReplyMade \<and>
            st' = st\<lparr>next_reply_earliest := nre,
                     publish_log := publish_log st @ [(t, k, True)],
                     replies_sent_total := replies_sent_total st + 1,
                     replies_this_hour := replies_this_hour st + 1,
                     store := store st @ [(k, ts)],
                     processed_action_keys := insert k (processed_action_keys st)\<rparr>)"
  using assms
  unfolding process_candidate_def pace_and_publish_def Let_def save_processed_action_key_def
  by (auto split: option.splits if_splits prod.splits sum.splits)

lemma dedup_inv_append:
  assumes "dedup_inv K0 st" and "k \<notin> processed_action_keys st"
  shows "dedup_inv K0 (st\<lparr>next_reply_earliest := nre,
                          publish_log := publish_log st @ [(t, k, False)]\<rparr>)"
    and "dedup_inv K0 (st\<lparr>next_reply_earliest := nre,
                     publish_log := publish_log st @ [(t, k, True)],
                     replies_sent_total := n,
                     replies_this_hour := m,
                     store := store st @ [(k, ts)],
                     processed_action_keys := insert k (processed_action_keys st)\<rparr>)"
  using assms
  by (auto simp: dedup_inv_def sorted_wrt_append never_again_def entry_key_def
      entry_success_def load_processed_action_keys_def)

lemma dedup_inv_session: "session_invariant e cfg acct (dedup_inv K0)"
  unfolding session_invariant_def
proof (intro conjI allI impI)
  fix c st w out st' w'
  assume a: "dedup_inv K0 st \<and> replies_this_hour st < replies_per_hour cfg \<and>
      replies_sent_total st < total_cap cfg \<and>
      process_candidate e cfg acct c st w = (out, st', w')"
  then have inv: "dedup_inv K0 st" and
    step: "process_candidate e cfg acct c st w = (out, st', w')" by simp_all
  from process_candidate_effect [OF step] inv dedup_inv_append [OF inv]
  show "dedup_inv K0 st'" by auto
next
  fix st a assume "dedup_inv K0 st"
  then show "dedup_inv K0 (st\<lparr>current_hour_start := a, replies_this_hour := 0\<rparr>)"
    by (simp add: dedup_inv_def)
next
  fix st b assume "dedup_inv K0 st \<and> next_reply_earliest st \<le> b"
  then show "dedup_inv K0 (st\<lparr>next_reply_earliest := b\<rparr>)"
    by (simp add: dedup_inv_def)
qed


lemma run_preserves:
  assumes inv: "session_invariant e cfg acct P"
    and init: "\<And>a b. P \<lparr>replies_sent_total = 0, replies_this_hour = 0,
                  current_hour_start = a, next_reply_earliest = b,
                  processed_action_keys = keys, store = entries, publish_log = []\<rparr>"
    and run: "run_home_timeline_replies e cfg acct keys entries w = (err, st, w')"
  shows "P st"
proof -
  obtain a w1 where c1: "clock e w = (a, w1)" by (cases "clock e w")
  obtain b w2 where c2: "clock e (build_style_context e w1) = (b, w2)"
    by (cases "clock e (build_style_context e w1)")
  from run c1 c2 have "session_loop e cfg acct (a + timedelta_hours (max_hours cfg))
                 \<lparr>replies_sent_total = 0, replies_this_hour = 0,
                  current_hour_start = a, next_reply_earliest = b,
                  processed_action_keys = keys, store = entries, publish_log = []\<rparr>
                 w2 = (err, st, w')"
    by (simp add: run_home_timeline_replies_def)
  from session_loop_preserves [OF inv init this] show ?thesis .
qed

lemma start_session_dedup:
  assumes "start_session e cfg acct entries w = (err, st, w')"
  shows "dedup_inv (load_processed_action_keys entries) st"
proof (rule run_preserves [OF dedup_inv_session _ assms [unfolded start_session_def]])
  fix a b
  show "dedup_inv (load_processed_action_keys entries)
          \<lparr>replies_sent_total = 0, replies_this_hour = 0, current_hour_start = a,
           next_reply_earliest = b,
           processed_action_keys = load_processed_action_keys entries, store = entries,
           publish_log = []\<rparr>"
    by (simp add: dedup_inv_def)
qed


text \<open>
  C4. A session starts from the keys loaded from the store. No publisher call of the
  session is on a key that was in the store when it started; the key of every successful
  call is in the store afterwards; within the session no publisher call follows a
  successful call on the same key; and in a later session that loads the store left by
  this one, no publisher call is on a key of a successful call of this one.
\<close>

theorem recorded_keys_never_acted_on_again:
  assumes "start_session e cfg acct entries w = (err, st, w')"
    and "start_session e2 cfg2 acct2 (store st) w2 = (err2, st2, w2')"
  shows "sorted_wrt never_again (publish_log st) \<and>
         (\<forall>x\<in>set (publish_log st). entry_key x \<notin> load_processed_action_keys entries) \<and>
         (\<forall>x\<in>set (publish_log st). entry_success x \<longrightarrow>
            entry_key x \<in> load_processed_action_keys (store st)) \<and>
         (\<forall>x\<in>set (publish_log st). entry_success x \<longrightarrow>
            (\<forall>y\<in>set (publish_log st2). entry_key y \<noteq> entry_key x))"
proof -
  from start_session_dedup [OF assms(1)]
  have inv1: "dedup_inv (load_processed_action_keys entries) st" .
  from start_session_dedup [OF assms(2)]
  have inv2: "dedup_inv (load_processed_action_keys (store st)) st2" .
  from inv1 have a: "sorted_wrt never_again (publish_log st)"
    by (simp add: dedup_inv_def)
  from inv1 have b: "\<forall>x\<in>set (publish_log st). entry_key x \<notin> load_processed_action_keys entries"
    by (simp add: dedup_inv_def)
  from inv1 have c: "\<forall>x\<in>set (publish_log st). entry_success x \<longrightarrow>
            entry_key x \<in> load_processed_action_keys (store st)"
    by (simp add: dedup_inv_def)
  from inv2 have d: "\<forall>y\<in>set (publish_log st2). entry_key y \<notin> load_processed_action_keys (store st)"
    by (simp add: dedup_inv_def)
  have e: "\<forall>x\<in>set (publish_log st). entry_success x \<longrightarrow>
            (\<forall>y\<in>set (publish_log st2). entry_key y \<noteq> entry_key x)"
  proof (intro ballI impI)
    fix x y
    assume "x \<in> set (publish_log st)" "entry_success x" "y \<in> set (publish_log st2)"
    with c d have "entry_key x \<in> load_processed_action_keys (store st)"
      "entry_key y \<notin> load_processed_action_keys (store st)" by simp_all
    then show "entry_key y \<noteq> entry_key x" by metis
  qed
  from a b c e show ?thesis by (intro conjI)
qed

theorem recorded_keys_never_acted_on_again_witness:
  "publish_log (fst (snd (start_session demo_env demo_cfg demo_account [] 0))) =
     [(4000000, ''home_reply_acct_1'', True), (8000000, ''home_reply_acct_2'', True)] \<and>
   store (fst (snd (start_session demo_env demo_cfg demo_account [] 0))) =
     [(''home_reply_acct_1'', 5000000), (''home_reply_acct_2'', 9000000)] \<and>
   publish_log (fst (snd (start_session demo_env demo_cfg demo_account
     [(''home_reply_acct_1'', 5000000), (''home_reply_acct_2'', 9000000)] 100))) = [] \<and>
   sorted_wrt never_again
     [(4000000, ''home_reply_acct_1'', True), (8000000, ''home_reply_acct_2'', True)]"
proof -
  have log1: "publish_log (fst (snd (start_session demo_env demo_cfg demo_account [] 0))) =
     [(4000000, ''home_reply_acct_1'', True), (8000000, ''home_reply_acct_2'', True)]"
    by code_simp
  have store1: "store (fst (snd (start_session demo_env demo_cfg demo_account [] 0))) =
     [(''home_reply_acct_1'', 5000000), (''home_reply_acct_2'', 9000000)]"
    by code_simp
  have log2: "publish_log (fst (snd (start_session demo_env demo_cfg demo_account
     [(''home_reply_acct_1'', 5000000), (''home_reply_acct_2'', 9000000)] 100))) = []"
    by code_simp
  have s1: "start_session demo_env demo_cfg demo_account [] 0 =
      (fst (start_session demo_env demo_cfg demo_account [] 0),
       fst (snd (start_session demo_env demo_cfg demo_account [] 0)),
       snd (snd (start_session demo_env demo_cfg demo_account [] 0)))"
    by (simp only: prod.collapse)
  have s2: "start_session demo_env demo_cfg demo_account
        (store (fst (snd (start_session demo_env demo_cfg demo_account [] 0)))) 100 =
      (fst (start_session demo_env demo_cfg demo_account
        (store (fst (snd (start_session demo_env demo_cfg demo_account [] 0)))) 100),
       fst (snd (start_session demo_env demo_cfg demo_account
        (store (fst (snd (start_session demo_env demo_cfg demo_account [] 0)))) 100)),
       snd (snd (start_session demo_env demo_cfg demo_account
        (store (fst (snd (start_session demo_env demo_cfg demo_account [] 0)))) 100)))"
    by (simp only: prod.collapse)
  from recorded_keys_never_acted_on_again [OF s1 s2]
  have "sorted_wrt never_again
     (publish_log (fst (snd (start_session demo_env demo_cfg demo_account [] 0))))"
    by (rule conjunct1)
  then have srt: "sorted_wrt never_again
     [(4000000, ''home_reply_acct_1'', True), (8000000, ''home_reply_acct_2'', True)]"
    by (simp only: log1)
  from log1 store1 log2 srt show ?thesis by (intro conjI)
qed













end
